theory Spec2Isabelle
  imports Complex_Main "HOL-Library.Log_Nat"
begin

section \<open>Values handed to the Python lambdas\<close>

text \<open>
  The log files are read with an inferred schema (\<^verbatim>\<open>spark.read.json(log_data)\<close>), so the
  type of the \<^verbatim>\<open>ts\<close> column is whatever the data makes it. A cell of that column reaches
  the Python lambda \<^verbatim>\<open>lambda x: format_datetime(int(x))\<close> as one of these values:
  \<^verbatim>\<open>None\<close> for a null cell, a \<^verbatim>\<open>bool\<close>, an \<^verbatim>\<open>int\<close> (LongType), a \<^verbatim>\<open>float\<close> (DoubleType: a
  finite one is its exact value, the others are NaN and the infinities), a \<^verbatim>\<open>str\<close>, or
  a list or Row (arrays and structs).
\<close>

datatype pyval =
    PyNone
  | PyBool bool
  | PyInt int
  | PyFloat real
  | PyNaN
  | PyInf
  | PyStr string
  | PyOther

datatype py_exc = TypeError | ValueError | OverflowError | RangeError

subsection \<open>Python's \<^verbatim>\<open>int(x)\<close>\<close>

text \<open>
  \<^verbatim>\<open>int\<close> of a string, base 10, as Python 3.7 (the notebook's kernel) does it. A
  character is a code point below 256. The parser (\<open>long_from_string\<close>) reads ASCII: the
  whitespace around the text is skipped (space, tab, line feed, vertical tab, form feed
  and carriage return, no other character: the separators 0x1C to 0x1F are not skipped),
  one sign is allowed, then decimal digits with single underscores between digits.
  Anything else raises ValueError.
\<close>

definition is_py_space :: "char \<Rightarrow> bool" where
  "is_py_space c =
     (c \<in> set [CHR '' '', CHR 0x09, CHR 0x0A, CHR 0x0B, CHR 0x0C, CHR 0x0D])"

definition strip :: "string \<Rightarrow> string" where
  "strip s = dropWhile is_py_space (rev (dropWhile is_py_space (rev s)))"

definition digit_val :: "char \<Rightarrow> int option" where
  "digit_val c =
     (let n = (of_char c :: int) in if 48 \<le> n \<and> n \<le> 57 then Some (n - 48) else None)"

fun digits_from :: "int \<Rightarrow> string \<Rightarrow> int option" where
  "digits_from acc [] = Some acc"
| "digits_from acc [c] =
     (case digit_val c of None \<Rightarrow> None | Some v \<Rightarrow> Some (acc * 10 + v))"
| "digits_from acc (c # d # ds) =
     (if c = CHR ''_''
      then (case digit_val d of None \<Rightarrow> None | Some v \<Rightarrow> digits_from (acc * 10 + v) ds)
      else (case digit_val c of None \<Rightarrow> None | Some v \<Rightarrow> digits_from (acc * 10 + v) (d # ds)))"

definition long_from_string :: "string \<Rightarrow> int option" where
  "long_from_string s =
     (let t = strip s;
          neg = (case t of [] \<Rightarrow> False | c # cs \<Rightarrow> c = CHR ''-'');
          r = (case t of [] \<Rightarrow> [] | c # cs \<Rightarrow> if c = CHR ''-'' \<or> c = CHR ''+'' then cs else t)
      in case r of
           [] \<Rightarrow> None
         | d # ds \<Rightarrow>
             (case digit_val d of
                None \<Rightarrow> None
              | Some v \<Rightarrow>
                  (case digits_from v ds of
                     None \<Rightarrow> None
                   | Some n \<Rightarrow> Some (if neg then - n else n))))"

text \<open>
  A string that is not all ASCII is rewritten before it is parsed: a character below 127
  stays, a Unicode whitespace becomes a space, a Unicode decimal digit becomes its ASCII
  digit, and at any other character the text ends with a question mark, which the parser
  refuses. Of the code points from 127 to 255 the whitespace are U+0085 and U+00A0, and
  none is a decimal digit: a no-break space before \<^verbatim>\<open>12\<close> still gives 12.
\<close>

fun transform_decimal_and_space :: "string \<Rightarrow> string" where
  "transform_decimal_and_space [] = []"
| "transform_decimal_and_space (c # cs) =
     (if (of_char c :: nat) < 127 then c # transform_decimal_and_space cs
      else if c = CHR 0x85 \<or> c = CHR 0xA0 then CHR '' '' # transform_decimal_and_space cs
      else ''?'')"

definition to_ascii :: "string \<Rightarrow> string" where
  "to_ascii s =
     (if list_all (\<lambda>c. (of_char c :: nat) < 128) s then s else transform_decimal_and_space s)"

definition str_to_int :: "string \<Rightarrow> int option" where
  "str_to_int s = long_from_string (to_ascii s)"

text \<open>
  The strings the parser accepts, described by their form and not by an algorithm:
  whitespace, an optional sign, groups of digits joined by single underscores, whitespace.
\<close>

definition is_digit :: "char \<Rightarrow> bool" where
  "is_digit c = (c \<in> set ''0123456789'')"

inductive digit_groups :: "string \<Rightarrow> bool" where
  one: "is_digit d \<Longrightarrow> digit_groups [d]"
| more: "is_digit d \<Longrightarrow> digit_groups ds \<Longrightarrow> digit_groups (d # ds)"
| underscore: "is_digit d \<Longrightarrow> digit_groups ds \<Longrightarrow> digit_groups (d # CHR ''_'' # ds)"

definition int_literal :: "string \<Rightarrow> bool" where
  "int_literal s \<longleftrightarrow>
     (\<exists>pre sign body post.
        s = pre @ sign @ body @ post \<and> list_all is_py_space pre \<and> list_all is_py_space post \<and>
        (sign = [] \<or> sign = ''+'' \<or> sign = ''-'') \<and> digit_groups body)"

fun py_int :: "pyval \<Rightarrow> py_exc + int" where
  "py_int PyNone = Inl TypeError"
| "py_int (PyBool b) = Inr (if b then 1 else 0)"
| "py_int (PyInt n) = Inr n"
| "py_int (PyFloat r) = Inr (if 0 \<le> r then \<lfloor>r\<rfloor> else \<lceil>r\<rceil>)"
| "py_int PyNaN = Inl ValueError"
| "py_int PyInf = Inl OverflowError"
| "py_int (PyStr s) = (case str_to_int s of None \<Rightarrow> Inl ValueError | Some n \<Rightarrow> Inr n)"
| "py_int PyOther = Inl TypeError"

section \<open>Calendar\<close>

text \<open>
  Dates are day numbers counted from 1970-01-01 in the proleptic Gregorian calendar, as
  Spark's DateType stores them. \<open>civil_from_days\<close> gives year, month and day of month.
\<close>

definition civil_from_days :: "int \<Rightarrow> int \<times> int \<times> int" where
  "civil_from_days z =
     (let z1 = z + 719468;
          era = z1 div 146097;
          doe = z1 mod 146097;
          yoe = (doe - doe div 1460 + doe div 36524 - doe div 146096) div 365;
          doy = doe - (365 * yoe + yoe div 4 - yoe div 100);
          mp = (5 * doy + 2) div 153;
          d = doy - (153 * mp + 2) div 5 + 1;
          m = (if mp < 10 then mp + 3 else mp - 9);
          y = yoe + era * 400
      in (if m \<le> 2 then y + 1 else y, m, d))"

definition days_from_civil :: "int \<Rightarrow> int \<Rightarrow> int \<Rightarrow> int" where
  "days_from_civil y m d =
     (let y1 = (if m \<le> 2 then y - 1 else y);
          era = y1 div 400;
          yoe = y1 - era * 400;
          doy = (153 * (if m > 2 then m - 3 else m + 9) + 2) div 5 + d - 1;
          doe = yoe * 365 + yoe div 4 - yoe div 100 + doy
      in era * 146097 + doe - 719468)"

text \<open>The functions of \<^verbatim>\<open>pyspark.sql.functions\<close> the notebook applies to its date column.\<close>

definition sql_year :: "int \<Rightarrow> int" where
  "sql_year z = fst (civil_from_days z)"

definition sql_month :: "int \<Rightarrow> int" where
  "sql_month z = fst (snd (civil_from_days z))"

definition sql_dayofmonth :: "int \<Rightarrow> int" where
  "sql_dayofmonth z = snd (snd (civil_from_days z))"

definition sql_dayofweek :: "int \<Rightarrow> int" where
  \<comment> \<open>1 is Sunday, 7 is Saturday; day 0 was a Thursday.\<close>
  "sql_dayofweek z = (z + 4) mod 7 + 1"

definition sql_weekofyear :: "int \<Rightarrow> int" where
  \<comment> \<open>ISO 8601 week: the week of the year that holds this week's Thursday.\<close>
  "sql_weekofyear z =
     (let thu = z - (z + 3) mod 7 + 3
      in (thu - days_from_civil (sql_year thu) 1 1) div 7 + 1)"

definition sql_hour :: "int \<Rightarrow> int" where
  \<comment> \<open>The argument is a date: it is cast to the instant that starts the day.\<close>
  "sql_hour z = 0"

section \<open>Double arithmetic\<close>

text \<open>
  A Python \<^verbatim>\<open>float\<close> is an IEEE 754 binary64 number; a finite one is the rational it
  stands for. Every operation returns the double nearest to the exact result, a tie going
  to the even significand (\<open>to_double\<close>): the exact result \<open>x\<close> lies in the binade
  \<open>2 ^ k \<le> \<bar>x\<bar> < 2 ^ (k + 1)\<close>, where doubles are the multiples of \<open>2 ^ (k - 52)\<close>. No
  result in this file is small enough to be subnormal, and the one conversion that can
  overflow is guarded where it is made.
\<close>

definition round_half_even :: "rat \<Rightarrow> int" where
  "round_half_even x =
     (let f = \<lfloor>x\<rfloor>; d = x - of_int f
      in if d < 1 / 2 then f else if 1 / 2 < d then f + 1 else if even f then f else f + 1)"

definition pow2 :: "int \<Rightarrow> rat" where
  "pow2 e = (if 0 \<le> e then 2 ^ nat e else 1 / 2 ^ nat (- e))"

definition binade :: "rat \<Rightarrow> int" where
  "binade x =
     (case quotient_of \<bar>x\<bar> of
        (a, b) \<Rightarrow>
          (let k = bitlen a - bitlen b
           in if (if 0 \<le> k then b * 2 ^ nat k \<le> a else b \<le> a * 2 ^ nat (- k))
              then k else k - 1))"

definition to_double :: "rat \<Rightarrow> rat" where
  "to_double x =
     (if x = 0 then 0
      else (let u = pow2 (binade x - 52) in of_int (round_half_even (x / u)) * u))"

section \<open>Input records\<close>

text \<open>
  A song-metadata record as read under \<^verbatim>\<open>song_schema()\<close>: its ten columns in the order of
  the schema, IntegerType as \<open>int\<close>, StringType as \<open>string\<close>, DoubleType as \<open>real\<close> (only
  equality of such values is used). Every column is nullable.
\<close>

record song_rec =
  num_songs :: "int option"
  artist_id :: "string option"
  artist_latitude :: "real option"
  artist_longitude :: "real option"
  artist_location :: "string option"
  artist_name :: "string option"
  song_id :: "string option"
  title :: "string option"
  duration :: "real option"
  year :: "int option"

text \<open>
  A usage-log record, with the columns \<^verbatim>\<open>process_log_data\<close> reads. Two more columns are
  added to it by \<^verbatim>\<open>withColumn\<close>.
\<close>

record log_rec =
  artist :: "string option"
  song :: "string option"
  page :: "string option"
  ts :: pyval
  userId :: "string option"
  firstName :: "string option"
  lastName :: "string option"
  gender :: "string option"
  level :: "string option"
  sessionId :: "int option"
  location :: "string option"
  userAgent :: "string option"

record log_cols = log_rec +
  start_time :: int
  datetime :: int

section \<open>Output tables and the writer\<close>

type_synonym songs_row =
  "string option \<times> string option \<times> string option \<times> int option \<times> real option"

type_synonym artists_row =
  "string option \<times> string option \<times> string option \<times> real option \<times> real option"

type_synonym users_row =
  "string option \<times> string option \<times> string option \<times> string option \<times> string option"

type_synonym time_row =
  "pyval \<times> int \<times> int \<times> int \<times> int \<times> int \<times> int \<times> int \<times> int"

type_synonym songplays_row =
  "int \<times> int \<times> int \<times> string option \<times> string option \<times> string option \<times>
   string option \<times> int option \<times> string option \<times> string option"

datatype table =
    Songs "songs_row list"
  | Artists "artists_row list"
  | Users "users_row list"
  | Time "time_row list"
  | Songplays "songplays_row list"

record written =
  partition_by :: "string list"
  rows :: table

type_synonym store = "string \<Rightarrow> written option"

datatype error = AnalysisException string | PythonException py_exc

text \<open>
  \<^verbatim>\<open>df.write.partitionBy(cols).parquet(path)\<close> with no \<^verbatim>\<open>mode\<close>: the save mode is
  Spark's default, which refuses a path that exists before any row is computed. The
  table is lazy: a Python exception in one of its cells surfaces here, and nothing is
  committed.
\<close>

definition write_parquet ::
    "store \<Rightarrow> string \<Rightarrow> string list \<Rightarrow> py_exc + table \<Rightarrow> error option \<times> store" where
  "write_parquet st path cols tbl =
     (case st path of
        Some w \<Rightarrow> (Some (AnalysisException path), st)
      | None \<Rightarrow>
          (case tbl of
             Inl e \<Rightarrow> (Some (PythonException e), st)
           | Inr t \<Rightarrow> (None, st(path \<mapsto> \<lparr>partition_by = cols, rows = t\<rparr>))))"

text \<open>Statements in sequence: an exception ends the run with the store as it stands.\<close>

definition and_then ::
    "error option \<times> store \<Rightarrow> (store \<Rightarrow> error option \<times> store) \<Rightarrow> error option \<times> store" where
  "and_then r f = (case r of (None, st) \<Rightarrow> f st | (Some e, st) \<Rightarrow> (Some e, st))"

section \<open>The Spark session\<close>

text \<open>
  What the notebook asks of its \<^verbatim>\<open>spark\<close> argument and of the machine it runs on:
  \<^verbatim>\<open>spark.read.json\<close> of the song files under \<^verbatim>\<open>song_schema()\<close>, \<^verbatim>\<open>spark.read.json\<close> of the
  log files, and the local time zone that \<^verbatim>\<open>datetime.fromtimestamp\<close> consults (the offset
  from UTC in seconds, at a given epoch second). A read fails when its path is missing.
\<close>

record session =
  read_song_json :: "string \<Rightarrow> error + song_rec list"
  read_log_json :: "string \<Rightarrow> error + log_rec list"
  utcoffset :: "int \<Rightarrow> int"

section \<open>Dataframe operations\<close>

text \<open>
  A dataframe is a list of rows. \<^verbatim>\<open>distinct()\<close> and \<^verbatim>\<open>dropDuplicates()\<close> are \<open>remdups\<close>;
  \<^verbatim>\<open>drop_duplicates(subset=[c])\<close> keeps one row for each value of the column, here the
  first one met.
\<close>

fun drop_duplicates :: "('a \<Rightarrow> 'k) \<Rightarrow> 'a list \<Rightarrow> 'a list" where
  "drop_duplicates key [] = []"
| "drop_duplicates key (x # xs) =
     x # drop_duplicates key (filter (\<lambda>y. key y \<noteq> key x) xs)"

text \<open>An SQL comparison \<^verbatim>\<open>a == b\<close> is true only of two equal values that are not null.\<close>

definition sql_eq :: "'a option \<Rightarrow> 'a option \<Rightarrow> bool" where
  "sql_eq a b = (a \<noteq> None \<and> b \<noteq> None \<and> a = b)"

definition inner_join :: "'a list \<Rightarrow> 'b list \<Rightarrow> ('a \<Rightarrow> 'b \<Rightarrow> bool) \<Rightarrow> ('a \<times> 'b) list" where
  "inner_join xs ys on = concat (map (\<lambda>x. map (Pair x) (filter (on x) ys)) xs)"

text \<open>A column computed by a Python function: the first exception ends the job.\<close>

fun traverse :: "('a \<Rightarrow> 'e + 'b) \<Rightarrow> 'a list \<Rightarrow> 'e + 'b list" where
  "traverse f [] = Inr []"
| "traverse f (x # xs) =
     (case f x of
        Inl e \<Rightarrow> Inl e
      | Inr y \<Rightarrow> (case traverse f xs of Inl e \<Rightarrow> Inl e | Inr ys \<Rightarrow> Inr (y # ys)))"

definition on_rows :: "('a \<Rightarrow> table) \<Rightarrow> py_exc + 'a \<Rightarrow> py_exc + table" where
  "on_rows f c = (case c of Inl e \<Rightarrow> Inl e | Inr d \<Rightarrow> Inr (f d))"

section \<open>process\_song\_data\<close>

text \<open>
  Both tables are \<^verbatim>\<open>df.select([...]).distinct().where(col(key).isNotNull())\<close>; a selected
  row is the tuple of its columns, the key first. The Songs table is written first,
  partitioned by year and artist\_id, then the Artists table with no partition columns.
\<close>

definition songs_table :: "song_rec list \<Rightarrow> songs_row list" where
  "songs_table df =
     filter (\<lambda>(sid, t, aid, y, d). sid \<noteq> None)
       (remdups (map (\<lambda>r. (song_id r, title r, artist_id r, year r, duration r)) df))"

definition artists_table :: "song_rec list \<Rightarrow> artists_row list" where
  "artists_table df =
     filter (\<lambda>(aid, n, loc, lat, lon). aid \<noteq> None)
       (remdups (map (\<lambda>r. (artist_id r, artist_name r, artist_location r,
                            artist_latitude r, artist_longitude r)) df))"

definition process_song_data ::
    "session \<Rightarrow> string \<Rightarrow> string \<Rightarrow> store \<Rightarrow> error option \<times> store" where
  "process_song_data spark input_data output_data st =
     (let song_data = input_data @ ''song_data/*/*/*/*.json''
      in case read_song_json spark song_data of
           Inl e \<Rightarrow> (Some e, st)
         | Inr df \<Rightarrow>
             (let songs_path = output_data @ ''songs''
              in and_then
                   (write_parquet st songs_path [''year'', ''artist_id'']
                      (Inr (Songs (songs_table df))))
                   (\<lambda>st. let artists_path = output_data @ ''artists''
                         in write_parquet st artists_path [] (Inr (Artists (artists_table df))))))"

section \<open>process\_log\_data\<close>

text \<open>
  The log records are filtered by \<^verbatim>\<open>df.page == 'NextSong'\<close> first, and every later step
  reads the filtered frame. The Users table is written before the two columns are added,
  so a failing conversion surfaces at the write of the Time table.
\<close>

definition users_table :: "log_rec list \<Rightarrow> users_row list" where
  "users_table df =
     filter (\<lambda>(u, f, l, g, lv). u \<noteq> None)
       (remdups (map (\<lambda>r. (userId r, firstName r, lastName r, gender r, level r)) df))"

text \<open>
  \<^verbatim>\<open>datetime.fromtimestamp(ts/1000.0)\<close>. The integer becomes a double (an OverflowError
  if it is too large) and is divided by the double 1000. \<^verbatim>\<open>fromtimestamp\<close> splits the
  quotient into its whole seconds and its fraction, multiplies the fraction by one million
  and rounds the product to microseconds, a tie to the even one; a rounded fraction outside
  the second is carried (\<open>timeval_of\<close>). It then reads the local time of that second, and,
  to find out whether that wall-clock time occurs twice, the local time one day earlier
  and, if the offset from UTC went down within that day, the local time that much earlier
  again; each of these must lie in the years 1 to 9999. Out of that range Python raises a
  ValueError, an OverflowError or an OSError, by magnitude and platform: \<open>RangeError\<close>
  here. The result is the local wall-clock time, in microseconds counted from
  1970-01-01 00:00:00 on that clock.
\<close>

definition timeval_of :: "rat \<Rightarrow> int \<times> int" where
  "timeval_of q =
     (let ip = (if 0 \<le> q then \<lfloor>q\<rfloor> else \<lceil>q\<rceil>);
          u = round_half_even (to_double ((q - of_int ip) * 1000000))
      in if 1000000 \<le> u then (ip + 1, u - 1000000)
         else if u < 0 then (ip - 1, u + 1000000)
         else (ip, u))"

definition year_ok :: "int \<Rightarrow> bool" where
  "year_ok lsec = (let y = sql_year (lsec div 86400) in 1 \<le> y \<and> y \<le> 9999)"

definition fromtimestamp :: "(int \<Rightarrow> int) \<Rightarrow> rat \<Rightarrow> py_exc + int" where
  "fromtimestamp tz q =
     (case timeval_of q of
        (sec, us) \<Rightarrow>
          (let trans = tz sec - tz (sec - 86400)
           in if year_ok (sec + tz sec) \<and> year_ok (sec - 86400 + tz (sec - 86400)) \<and>
                 (0 \<le> trans \<or> year_ok (sec + trans + tz (sec + trans)))
              then Inr ((sec + tz sec) * 1000000 + us)
              else Inl RangeError))"

definition format_datetime :: "(int \<Rightarrow> int) \<Rightarrow> int \<Rightarrow> py_exc + int" where
  "format_datetime tz n =
     (if 2 ^ 1024 - 2 ^ 970 \<le> \<bar>n\<bar> then Inl OverflowError
      else fromtimestamp tz (to_double (to_double (of_int n) / 1000)))"

definition get_timestamp :: "(int \<Rightarrow> int) \<Rightarrow> pyval \<Rightarrow> py_exc + int" where
  "get_timestamp tz x = (case py_int x of Inl e \<Rightarrow> Inl e | Inr n \<Rightarrow> format_datetime tz n)"

definition get_datetime :: "(int \<Rightarrow> int) \<Rightarrow> pyval \<Rightarrow> py_exc + int" where
  \<comment> \<open>Returned as a DateType: the day number of the datetime.\<close>
  "get_datetime tz x =
     (case py_int x of
        Inl e \<Rightarrow> Inl e
      | Inr n \<Rightarrow>
          (case format_datetime tz n of
             Inl e \<Rightarrow> Inl e
           | Inr us \<Rightarrow> Inr (us div 86400000000)))"

definition with_columns :: "(int \<Rightarrow> int) \<Rightarrow> log_rec \<Rightarrow> py_exc + log_cols" where
  "with_columns tz r =
     (case get_timestamp tz (ts r) of
        Inl e \<Rightarrow> Inl e
      | Inr t \<Rightarrow>
          (case get_datetime tz (ts r) of
             Inl e \<Rightarrow> Inl e
           | Inr d \<Rightarrow>
               Inr \<lparr>artist = artist r, song = song r, page = page r, ts = ts r,
                    userId = userId r, firstName = firstName r, lastName = lastName r,
                    gender = gender r, level = level r, sessionId = sessionId r,
                    location = location r, userAgent = userAgent r,
                    start_time = t, datetime = d\<rparr>))"

text \<open>
  The Time table selects \<^verbatim>\<open>ts\<close>, \<^verbatim>\<open>start_time\<close>, \<^verbatim>\<open>datetime\<close> and six fields of the date, and
  drops duplicate rows. The Songplays table joins the song records, read again from the
  song files, with the log frame deduplicated by \<^verbatim>\<open>start_time\<close>, on title and artist name,
  keeps the pairs whose page is "NextSong" and selects ten columns.
\<close>

definition time_row_of :: "log_cols \<Rightarrow> time_row" where
  "time_row_of r =
     (ts r, start_time r, datetime r, sql_hour (datetime r), sql_dayofmonth (datetime r),
      sql_weekofyear (datetime r), sql_year (datetime r), sql_month (datetime r),
      sql_dayofweek (datetime r))"

definition time_table :: "log_cols list \<Rightarrow> time_row list" where
  "time_table df = remdups (map time_row_of df)"

definition songplays_row_of :: "song_rec \<times> log_cols \<Rightarrow> songplays_row" where
  "songplays_row_of p =
     (case p of (s, l) \<Rightarrow>
        (start_time l, sql_year (datetime l), sql_month (datetime l), userId l, level l,
         song_id s, artist_id s, sessionId l, location l, userAgent l))"

definition songplays_join :: "song_rec list \<Rightarrow> log_cols list \<Rightarrow> (song_rec \<times> log_cols) list" where
  "songplays_join song_df df =
     filter (\<lambda>(s, l). page l = Some ''NextSong'')
       (inner_join song_df df
          (\<lambda>s l. sql_eq (title s) (song l) \<and> sql_eq (artist_name s) (artist l)))"

definition songplays_table :: "song_rec list \<Rightarrow> log_cols list \<Rightarrow> songplays_row list" where
  "songplays_table song_df df =
     (let df = drop_duplicates start_time df
      in map songplays_row_of (songplays_join song_df df))"

definition process_log_data ::
    "session \<Rightarrow> string \<Rightarrow> string \<Rightarrow> store \<Rightarrow> error option \<times> store" where
  "process_log_data spark input_data output_data st =
     (let log_data = input_data @ ''log-data/''
      in case read_log_json spark log_data of
           Inl e \<Rightarrow> (Some e, st)
         | Inr df \<Rightarrow>
             (let df = filter (\<lambda>r. page r = Some ''NextSong'') df;
                  users_path = output_data @ ''users''
              in and_then (write_parquet st users_path [] (Inr (Users (users_table df))))
                   (\<lambda>st.
                      let df = traverse (with_columns (utcoffset spark)) df;
                          time_table_path = output_data @ ''time''
                      in and_then
                           (write_parquet st time_table_path [''year'', ''month'']
                              (on_rows (\<lambda>d. Time (time_table d)) df))
                           (\<lambda>st.
                              let songs_path = input_data @ ''song_data/*/*/*/*.json''
                              in case read_song_json spark songs_path of
                                   Inl e \<Rightarrow> (Some e, st)
                                 | Inr song_df \<Rightarrow>
                                     (let songplays_path = output_data @ ''songplays''
                                      in write_parquet st songplays_path [''year'', ''month'']
                                           (on_rows (\<lambda>d. Songplays (songplays_table song_df d))
                                              df))))))"

section \<open>main\<close>

text \<open>
  The session that \<^verbatim>\<open>create_spark_session()\<close> returns is the argument \<open>spark\<close>; the two
  locations are the constants of the notebook.
\<close>

definition main :: "session \<Rightarrow> store \<Rightarrow> error option \<times> store" where
  "main spark st =
     (let input_data = ''s3a://bucket-name/viraj/'';
          output_data = ''s3a://bucket-name/viraj/output-''
      in and_then (process_song_data spark input_data output_data st)
           (process_log_data spark input_data output_data))"

section \<open>Stores that only grow\<close>

text \<open>
  A run leaves what the store held untouched, and what it adds is written with the
  partition columns listed in \<open>S\<close>.
\<close>

definition extends_by :: "(string \<times> string list) set \<Rightarrow> store \<Rightarrow> store \<Rightarrow> bool" where
  "extends_by S st st' \<longleftrightarrow>
     (\<forall>q. st q \<noteq> None \<longrightarrow> st' q = st q) \<and>
     (\<forall>q w. st q = None \<and> st' q = Some w \<longrightarrow> (q, partition_by w) \<in> S)"

section \<open>Example inputs\<close>

text \<open>
  A song record and a log event for the same song, variants of them with a null key, with
  another page and with any given \<open>ts\<close> value, the same events with their two added
  columns under UTC, and a session that serves two copies of the song record and a given
  list of log records from the paths \<^verbatim>\<open>main\<close> reads.
\<close>

definition song_tom :: song_rec where
  "song_tom =
     \<lparr>num_songs = Some 1, artist_id = Some ''A1'', artist_latitude = None,
      artist_longitude = None, artist_location = None, artist_name = Some ''Suzanne Vega'',
      song_id = Some ''S1'', title = Some ''Tom's Diner'', duration = None, year = Some 1987\<rparr>"

definition song_nokey :: song_rec where
  "song_nokey =
     \<lparr>num_songs = Some 1, artist_id = Some ''A1'', artist_latitude = None,
      artist_longitude = None, artist_location = None, artist_name = Some ''Suzanne Vega'',
      song_id = None, title = Some ''Tom's Diner'', duration = None, year = Some 1987\<rparr>"

definition log_tom :: log_rec where
  "log_tom =
     \<lparr>artist = Some ''Suzanne Vega'', song = Some ''Tom's Diner'', page = Some ''NextSong'',
      ts = PyInt 1541990258796, userId = Some ''10'', firstName = None, lastName = None,
      gender = None, level = Some ''free'', sessionId = Some 5, location = Some ''LA'',
      userAgent = Some ''UA''\<rparr>"

definition log_anon :: log_rec where
  "log_anon =
     \<lparr>artist = Some ''Nobody'', song = Some ''Nothing'', page = Some ''NextSong'',
      ts = PyInt 1541990259796, userId = None, firstName = None, lastName = None,
      gender = None, level = Some ''free'', sessionId = Some 6, location = None,
      userAgent = None\<rparr>"

definition log_home :: log_rec where
  "log_home =
     \<lparr>artist = None, song = None, page = Some ''Home'', ts = PyNone, userId = Some ''10'',
      firstName = None, lastName = None, gender = None, level = Some ''free'',
      sessionId = Some 5, location = Some ''LA'', userAgent = Some ''UA''\<rparr>"

definition log_with_ts :: "pyval \<Rightarrow> log_rec" where
  "log_with_ts x =
     \<lparr>artist = Some ''Nobody'', song = Some ''Nothing'', page = Some ''NextSong'', ts = x,
      userId = Some ''11'', firstName = None, lastName = None, gender = None,
      level = Some ''paid'', sessionId = Some 6, location = None, userAgent = None\<rparr>"

definition cols_tom :: log_cols where
  "cols_tom =
     \<lparr>artist = Some ''Suzanne Vega'', song = Some ''Tom's Diner'', page = Some ''NextSong'',
      ts = PyInt 1541990258796, userId = Some ''10'', firstName = None, lastName = None,
      gender = None, level = Some ''free'', sessionId = Some 5, location = Some ''LA'',
      userAgent = Some ''UA'', start_time = 1541990258796000, datetime = 17847\<rparr>"

definition cols_other :: log_cols where
  "cols_other =
     \<lparr>artist = Some ''Nobody'', song = Some ''Nothing'', page = Some ''NextSong'',
      ts = PyInt 1541990259796, userId = Some ''11'', firstName = None, lastName = None,
      gender = None, level = Some ''paid'', sessionId = Some 6, location = None,
      userAgent = None, start_time = 1541990259796000, datetime = 17847\<rparr>"

definition cols_tom_again :: log_cols where
  "cols_tom_again =
     \<lparr>artist = Some ''Nobody'', song = Some ''Nothing'', page = Some ''NextSong'',
      ts = PyInt 1541990258796, userId = Some ''12'', firstName = None, lastName = None,
      gender = None, level = Some ''free'', sessionId = Some 7, location = None,
      userAgent = None, start_time = 1541990258796000, datetime = 17847\<rparr>"

definition session_of :: "log_rec list \<Rightarrow> session" where
  "session_of logs =
     \<lparr>read_song_json =
        (\<lambda>p. if p = ''s3a://bucket-name/viraj/song_data/*/*/*/*.json''
             then Inr [song_tom, song_tom] else Inl (AnalysisException p)),
      read_log_json =
        (\<lambda>p. if p = ''s3a://bucket-name/viraj/log-data/''
             then Inr logs else Inl (AnalysisException p)),
      utcoffset = (\<lambda>x. 0)\<rparr>"

section \<open>Properties of the dataframe operations\<close>

lemma set_drop_duplicates: "set (drop_duplicates key xs) \<subseteq> set xs"
  by (induction key xs rule: drop_duplicates.induct) auto

lemma keys_drop_duplicates: "key ` set (drop_duplicates key xs) = key ` set xs"
proof (induction key xs rule: drop_duplicates.induct)
  case (1 key)
  show ?case by simp
next
  case (2 key x xs)
  have "key ` set (x # xs) = insert (key x) (key ` set (filter (\<lambda>y. key y \<noteq> key x) xs))"
    by auto
  with 2 show ?case by simp
qed

lemma distinct_keys_drop_duplicates: "distinct (map key (drop_duplicates key xs))"
proof (induction key xs rule: drop_duplicates.induct)
  case (1 key)
  show ?case by simp
next
  case (2 key x xs)
  have "key x \<notin> key ` set (drop_duplicates key (filter (\<lambda>y. key y \<noteq> key x) xs))"
    unfolding keys_drop_duplicates by auto
  with 2 show ?case by simp
qed

lemma distinct_map_filter_key:
  "distinct (map key ys) \<Longrightarrow> y \<in> set ys \<Longrightarrow> filter (\<lambda>x. key x = key y) ys = [y]"
proof (induction ys)
  case Nil
  then show ?case by simp
next
  case (Cons a ys)
  from Cons.prems have d: "distinct (map key ys)" and na: "key a \<notin> key ` set ys"
    by simp_all
  show ?case
  proof (cases "a = y")
    case True
    from na True have "\<forall>x\<in>set ys. key x \<noteq> key y"
      by (metis image_eqI)
    then have "filter (\<lambda>x. key x = key y) ys = []"
      by (simp add: filter_empty_conv)
    with True show ?thesis by simp
  next
    case False
    with Cons.prems have yin: "y \<in> set ys" by simp
    with na have "key a \<noteq> key y"
      by (metis image_eqI)
    moreover from Cons.IH [OF d yin] have "filter (\<lambda>x. key x = key y) ys = [y]" .
    ultimately show ?thesis by simp
  qed
qed

lemma one_per_key:
  assumes "e \<in> set xs"
  shows "\<exists>r \<in> set xs. key r = key e \<and> filter (\<lambda>x. key x = key e) (drop_duplicates key xs) = [r]"
proof -
  from assms have "key e \<in> key ` set (drop_duplicates key xs)"
    unfolding keys_drop_duplicates by (rule imageI)
  then obtain r where r: "r \<in> set (drop_duplicates key xs)" "key r = key e"
    by (auto simp: image_iff)
  have "filter (\<lambda>x. key x = key r) (drop_duplicates key xs) = [r]"
    by (rule distinct_map_filter_key [OF distinct_keys_drop_duplicates r(1)])
  then have f: "filter (\<lambda>x. key x = key e) (drop_duplicates key xs) = [r]"
    unfolding r(2) .
  have "r \<in> set xs"
    using set_drop_duplicates [of key xs] r(1) by (rule subsetD)
  with f r(2) show ?thesis by (intro bexI [of _ r] conjI)
qed

lemma filter_eq_distinct:
  "distinct ys \<Longrightarrow> y \<in> set ys \<Longrightarrow> filter (\<lambda>x. x = y) ys = [y]"
  using distinct_map_filter_key [of "\<lambda>x. x" ys y] by simp

lemma inner_join_Nil: "inner_join [] ys on = []"
  by (simp add: inner_join_def)

lemma inner_join_Cons:
  "inner_join (x # xs) ys on = map (Pair x) (filter (on x) ys) @ inner_join xs ys on"
  by (simp add: inner_join_def)

lemma set_inner_join:
  "set (inner_join xs ys on) = {(x, y). x \<in> set xs \<and> y \<in> set ys \<and> on x y}"
  by (induction xs) (auto simp: inner_join_Nil inner_join_Cons)

lemma set_songplays_join:
  "set (songplays_join song_df df) =
     {(s, l). s \<in> set song_df \<and> l \<in> set df \<and> page l = Some ''NextSong'' \<and>
              sql_eq (title s) (song l) \<and> sql_eq (artist_name s) (artist l)}"
  unfolding songplays_join_def set_filter set_inner_join by auto

lemma length_filter_snd_inner_join:
  "length (filter (\<lambda>p. snd p = l) (inner_join xs ys on)) =
     length (filter (\<lambda>x. on x l) xs) * length (filter (\<lambda>y. y = l) ys)"
proof (induction xs)
  case Nil
  show ?case by (simp add: inner_join_Nil)
next
  case (Cons x xs)
  have "filter (\<lambda>p. snd p = l) (map (Pair x) (filter (on x) ys)) =
        map (Pair x) (filter (\<lambda>y. on x y \<and> y = l) ys)"
    by (simp add: filter_map comp_def)
  also have "filter (\<lambda>y. on x y \<and> y = l) ys =
             (if on x l then filter (\<lambda>y. y = l) ys else [])"
    by (induction ys) auto
  finally have "length (filter (\<lambda>p. snd p = l) (map (Pair x) (filter (on x) ys))) =
                (if on x l then length (filter (\<lambda>y. y = l) ys) else 0)"
    by simp
  with Cons show ?case by (simp add: inner_join_Cons)
qed

lemma length_filter_snd_songplays_join:
  assumes "page l = Some ''NextSong''"
  shows "length (filter (\<lambda>p. snd p = l) (songplays_join song_df df)) =
     length (filter (\<lambda>s. sql_eq (title s) (song l) \<and> sql_eq (artist_name s) (artist l)) song_df)
       * length (filter (\<lambda>y. y = l) df)"
proof -
  have "filter (\<lambda>p. snd p = l) (songplays_join song_df df) =
        filter (\<lambda>p. snd p = l)
          (inner_join song_df df
             (\<lambda>s l. sql_eq (title s) (song l) \<and> sql_eq (artist_name s) (artist l)))"
    unfolding songplays_join_def filter_filter
    by (rule filter_cong) (auto simp: assms)
  then show ?thesis by (simp add: length_filter_snd_inner_join)
qed

lemma songplays_rows_of_event:
  assumes l: "l \<in> set (drop_duplicates start_time df)"
    and pg: "page l = Some ''NextSong''"
  shows "length (filter (\<lambda>row. fst row = start_time l) (songplays_table song_df df)) =
         length (filter (\<lambda>s. sql_eq (title s) (song l) \<and> sql_eq (artist_name s) (artist l))
                   song_df)"
proof -
  let ?dfd = "drop_duplicates start_time df"
  let ?pairs = "songplays_join song_df ?dfd"
  have dk: "distinct (map start_time ?dfd)"
    by (rule distinct_keys_drop_duplicates)
  then have d: "distinct ?dfd"
    by (simp add: distinct_map)
  have one: "filter (\<lambda>y. y = l) ?dfd = [l]"
    by (rule filter_eq_distinct [OF d l])
  have "filter (\<lambda>row. fst row = start_time l) (songplays_table song_df df) =
        map songplays_row_of (filter (\<lambda>p. start_time (snd p) = start_time l) ?pairs)"
    by (simp add: songplays_table_def filter_map comp_def songplays_row_of_def split_def)
  also have "filter (\<lambda>p. start_time (snd p) = start_time l) ?pairs =
             filter (\<lambda>p. snd p = l) ?pairs"
  proof (rule filter_cong [OF refl])
    fix p assume "p \<in> set ?pairs"
    then have "snd p \<in> set ?dfd"
      by (auto simp: set_songplays_join)
    with dk l show "(start_time (snd p) = start_time l) = (snd p = l)"
      by (auto simp: distinct_map inj_on_def)
  qed
  finally show ?thesis
    by (simp add: length_filter_snd_songplays_join [OF pg] one)
qed

lemma songs_table_ok:
  "distinct (songs_table df) \<and> (\<forall>r \<in> set (songs_table df). fst r \<noteq> None)"
  by (simp add: songs_table_def split_def)

lemma artists_table_ok:
  "distinct (artists_table df) \<and> (\<forall>r \<in> set (artists_table df). fst r \<noteq> None)"
  by (simp add: artists_table_def split_def)

lemma users_table_ok:
  "distinct (users_table df) \<and> (\<forall>r \<in> set (users_table df). fst r \<noteq> None)"
  by (simp add: users_table_def split_def)

lemma traverse_Inl:
  "x \<in> set xs \<Longrightarrow> f x = Inl e \<Longrightarrow> \<exists>e'. traverse f xs = Inl e'"
  by (induction xs) (auto split: sum.splits)

section \<open>Properties of the writer and of the runs\<close>

lemma extends_by_refl: "extends_by S st st"
  by (auto simp: extends_by_def)

lemma extends_by_mono: "extends_by S st st' \<Longrightarrow> S \<subseteq> T \<Longrightarrow> extends_by T st st'"
  unfolding extends_by_def by blast

lemma extends_by_trans:
  assumes "extends_by S st st1" and "extends_by S st1 st2"
  shows "extends_by S st st2"
  unfolding extends_by_def
proof (intro conjI allI impI)
  fix q assume "st q \<noteq> None"
  with assms show "st2 q = st q"
    unfolding extends_by_def by metis
next
  fix q w assume a: "st q = None \<and> st2 q = Some w"
  show "(q, partition_by w) \<in> S"
  proof (cases "st1 q")
    case None
    with a assms(2) show ?thesis unfolding extends_by_def by blast
  next
    case (Some w1)
    with assms(2) a have "w1 = w" unfolding extends_by_def by (metis option.distinct(1) option.inject)
    with Some a assms(1) show ?thesis unfolding extends_by_def by blast
  qed
qed

lemma write_parquet_extends:
  "extends_by {(p, cols)} st (snd (write_parquet st p cols tbl))"
  by (auto simp: extends_by_def write_parquet_def split: option.splits sum.splits)

lemma fst_and_then:
  "fst (and_then x f) = None \<longleftrightarrow> fst x = None \<and> fst (f (snd x)) = None"
  by (cases x) (simp add: and_then_def split: option.splits)

lemma snd_and_then:
  "snd (and_then x f) = (if fst x = None then snd (f (snd x)) else snd x)"
  by (cases x) (simp add: and_then_def split: option.splits)

lemma and_then_extends:
  assumes "extends_by S st (snd x)" and "\<And>st1. extends_by S st1 (snd (f st1))"
  shows "extends_by S st (snd (and_then x f))"
  unfolding snd_and_then using assms extends_by_trans by auto

lemma process_song_data_extends:
  "extends_by {(output_data @ ''songs'', [''year'', ''artist_id'']), (output_data @ ''artists'', [])}
     st (snd (process_song_data spark input_data output_data st))"
  unfolding process_song_data_def Let_def
  by (auto split: sum.split
      intro!: extends_by_refl and_then_extends extends_by_mono [OF write_parquet_extends])

lemma process_log_data_extends:
  "extends_by {(output_data @ ''users'', []), (output_data @ ''time'', [''year'', ''month'']),
               (output_data @ ''songplays'', [''year'', ''month''])}
     st (snd (process_log_data spark input_data output_data st))"
  unfolding process_log_data_def Let_def
  by (auto split: sum.split
      intro!: extends_by_refl and_then_extends extends_by_mono [OF write_parquet_extends])

lemma main_extends:
  "extends_by
     {(''s3a://bucket-name/viraj/output-songs'', [''year'', ''artist_id'']),
      (''s3a://bucket-name/viraj/output-artists'', []),
      (''s3a://bucket-name/viraj/output-users'', []),
      (''s3a://bucket-name/viraj/output-time'', [''year'', ''month'']),
      (''s3a://bucket-name/viraj/output-songplays'', [''year'', ''month''])}
     st (snd (main spark st))"
proof -
  let ?S = "{(''s3a://bucket-name/viraj/output-songs'', [''year'', ''artist_id'']),
      (''s3a://bucket-name/viraj/output-artists'', []),
      (''s3a://bucket-name/viraj/output-users'', []),
      (''s3a://bucket-name/viraj/output-time'', [''year'', ''month'']),
      (''s3a://bucket-name/viraj/output-songplays'', [''year'', ''month''])}"
  have a: "extends_by ?S st1 (snd (process_song_data spark ''s3a://bucket-name/viraj/''
             ''s3a://bucket-name/viraj/output-'' st1))" for st1
    by (rule extends_by_mono [OF process_song_data_extends]) simp
  have b: "extends_by ?S st1 (snd (process_log_data spark ''s3a://bucket-name/viraj/''
             ''s3a://bucket-name/viraj/output-'' st1))" for st1
    by (rule extends_by_mono [OF process_log_data_extends]) simp
  show ?thesis
    unfolding main_def Let_def by (rule and_then_extends [OF a b])
qed

lemma process_song_data_ok:
  assumes "fst (process_song_data spark input_data output_data st) = None"
  shows "\<exists>df. read_song_json spark (input_data @ ''song_data/*/*/*/*.json'') = Inr df \<and>
           st (output_data @ ''songs'') = None \<and> st (output_data @ ''artists'') = None \<and>
           snd (process_song_data spark input_data output_data st) (output_data @ ''songs'') =
             Some \<lparr>partition_by = [''year'', ''artist_id''], rows = Songs (songs_table df)\<rparr> \<and>
           snd (process_song_data spark input_data output_data st) (output_data @ ''artists'') =
             Some \<lparr>partition_by = [], rows = Artists (artists_table df)\<rparr>"
  using assms
  by (auto simp: process_song_data_def Let_def and_then_def write_parquet_def
      split: sum.splits option.splits)

lemma process_log_data_ok:
  assumes "fst (process_log_data spark input_data output_data st) = None"
  shows "\<exists>df d song_df.
           read_log_json spark (input_data @ ''log-data/'') = Inr df \<and>
           traverse (with_columns (utcoffset spark)) (filter (\<lambda>r. page r = Some ''NextSong'') df) = Inr d \<and>
           read_song_json spark (input_data @ ''song_data/*/*/*/*.json'') = Inr song_df \<and>
           st (output_data @ ''users'') = None \<and> st (output_data @ ''time'') = None \<and>
           st (output_data @ ''songplays'') = None \<and>
           snd (process_log_data spark input_data output_data st) (output_data @ ''users'') =
             Some \<lparr>partition_by = [],
                   rows = Users (users_table (filter (\<lambda>r. page r = Some ''NextSong'') df))\<rparr> \<and>
           snd (process_log_data spark input_data output_data st) (output_data @ ''time'') =
             Some \<lparr>partition_by = [''year'', ''month''], rows = Time (time_table d)\<rparr> \<and>
           snd (process_log_data spark input_data output_data st) (output_data @ ''songplays'') =
             Some \<lparr>partition_by = [''year'', ''month''],
                   rows = Songplays (songplays_table song_df d)\<rparr>"
  using assms
  by (auto simp: process_log_data_def Let_def and_then_def write_parquet_def on_rows_def
      split: sum.splits option.splits)

lemma main_ok:
  assumes "fst (main spark st) = None"
  shows "\<exists>a b c d e.
      st ''s3a://bucket-name/viraj/output-songs'' = None \<and>
      st ''s3a://bucket-name/viraj/output-artists'' = None \<and>
      st ''s3a://bucket-name/viraj/output-users'' = None \<and>
      st ''s3a://bucket-name/viraj/output-time'' = None \<and>
      st ''s3a://bucket-name/viraj/output-songplays'' = None \<and>
      snd (main spark st) ''s3a://bucket-name/viraj/output-songs'' =
        Some \<lparr>partition_by = [''year'', ''artist_id''], rows = Songs a\<rparr> \<and>
      snd (main spark st) ''s3a://bucket-name/viraj/output-artists'' =
        Some \<lparr>partition_by = [], rows = Artists b\<rparr> \<and>
      snd (main spark st) ''s3a://bucket-name/viraj/output-users'' =
        Some \<lparr>partition_by = [], rows = Users c\<rparr> \<and>
      snd (main spark st) ''s3a://bucket-name/viraj/output-time'' =
        Some \<lparr>partition_by = [''year'', ''month''], rows = Time d\<rparr> \<and>
      snd (main spark st) ''s3a://bucket-name/viraj/output-songplays'' =
        Some \<lparr>partition_by = [''year'', ''month''], rows = Songplays e\<rparr>"
proof -
  let ?i = "''s3a://bucket-name/viraj/''" and ?o = "''s3a://bucket-name/viraj/output-''"
  let ?st1 = "snd (process_song_data spark ?i ?o st)"
  let ?st2 = "snd (process_log_data spark ?i ?o ?st1)"
  have paths: "?o @ ''songs'' = ''s3a://bucket-name/viraj/output-songs''"
    "?o @ ''artists'' = ''s3a://bucket-name/viraj/output-artists''"
    "?o @ ''users'' = ''s3a://bucket-name/viraj/output-users''"
    "?o @ ''time'' = ''s3a://bucket-name/viraj/output-time''"
    "?o @ ''songplays'' = ''s3a://bucket-name/viraj/output-songplays''"
    by simp_all
  from assms have ok1: "fst (process_song_data spark ?i ?o st) = None"
    and ok2: "fst (process_log_data spark ?i ?o ?st1) = None"
    unfolding main_def Let_def fst_and_then by simp_all
  from ok1 have fin: "snd (main spark st) = ?st2"
    unfolding main_def Let_def snd_and_then by simp
  from process_song_data_ok [OF ok1] obtain df where
    s1: "st (?o @ ''songs'') = None" "st (?o @ ''artists'') = None"
      "?st1 (?o @ ''songs'') =
         Some \<lparr>partition_by = [''year'', ''artist_id''], rows = Songs (songs_table df)\<rparr>"
      "?st1 (?o @ ''artists'') =
         Some \<lparr>partition_by = [], rows = Artists (artists_table df)\<rparr>"
    by blast
  from process_log_data_ok [OF ok2] obtain c d e where
    s2: "?st1 (?o @ ''users'') = None" "?st1 (?o @ ''time'') = None"
      "?st1 (?o @ ''songplays'') = None"
      "?st2 (?o @ ''users'') = Some \<lparr>partition_by = [], rows = Users c\<rparr>"
      "?st2 (?o @ ''time'') = Some \<lparr>partition_by = [''year'', ''month''], rows = Time d\<rparr>"
      "?st2 (?o @ ''songplays'') =
         Some \<lparr>partition_by = [''year'', ''month''], rows = Songplays e\<rparr>"
    by blast
  have e1: "\<forall>q. st q \<noteq> None \<longrightarrow> ?st1 q = st q"
    using process_song_data_extends [of ?o st spark ?i] unfolding extends_by_def by (rule conjunct1)
  have e2: "\<forall>q. ?st1 q \<noteq> None \<longrightarrow> ?st2 q = ?st1 q"
    using process_log_data_extends [of ?o ?st1 spark ?i] unfolding extends_by_def by (rule conjunct1)
  have keep1: "st q = None" if "?st1 q = None" for q
  proof (rule ccontr)
    assume "st q \<noteq> None"
    with e1 have "?st1 q = st q" by blast
    with that \<open>st q \<noteq> None\<close> show False by simp
  qed
  have k3: "?st2 (?o @ ''songs'') =
         Some \<lparr>partition_by = [''year'', ''artist_id''], rows = Songs (songs_table df)\<rparr>"
    using e2 s1(3) by simp
  have k4: "?st2 (?o @ ''artists'') =
         Some \<lparr>partition_by = [], rows = Artists (artists_table df)\<rparr>"
    using e2 s1(4) by simp
  note f = s1(1,2) [unfolded paths] keep1 [OF s2(1), unfolded paths]
    keep1 [OF s2(2), unfolded paths] keep1 [OF s2(3), unfolded paths]
    k3 [unfolded paths] k4 [unfolded paths] s2(4,5,6) [unfolded paths]
  show ?thesis
    unfolding fin by (intro exI conjI) (rule f)+
qed

section \<open>Properties of \<^verbatim>\<open>int(x)\<close>\<close>

text \<open>
  The parser refuses exactly the strings that are not of the form of an integer literal, so
  the values on which \<^verbatim>\<open>int(x)\<close> raises are known by their form.
\<close>

lemma is_digit_iff: "is_digit c \<longleftrightarrow> 48 \<le> (of_char c :: int) \<and> (of_char c :: int) \<le> 57"
proof
  assume "is_digit c"
  then show "48 \<le> (of_char c :: int) \<and> (of_char c :: int) \<le> 57"
    by (auto simp: is_digit_def)
next
  assume a: "48 \<le> (of_char c :: int) \<and> (of_char c :: int) \<le> 57"
  define k where "k = (of_char c :: int)"
  have c: "c = char_of k" by (simp add: k_def)
  from a have "k = 48 \<or> k = 49 \<or> k = 50 \<or> k = 51 \<or> k = 52 \<or> k = 53 \<or> k = 54 \<or> k = 55 \<or>
      k = 56 \<or> k = 57"
    unfolding k_def [symmetric] by arith
  then show "is_digit c"
    unfolding c is_digit_def by (elim disjE) (simp_all add: char_of_def)
qed

lemma digit_val_None_iff: "digit_val c = None \<longleftrightarrow> \<not> is_digit c"
  by (simp add: digit_val_def Let_def is_digit_iff)

lemma digit_not_space: "is_digit c \<Longrightarrow> \<not> is_py_space c"
  by (auto simp: is_digit_def is_py_space_def)

lemma underscore_not_digit: "\<not> is_digit (CHR ''_'')"
  by (simp add: is_digit_def)

lemma sign_not_digit: "\<not> is_digit (CHR ''+'')" "\<not> is_digit (CHR ''-'')"
  by (simp_all add: is_digit_def)

lemma sign_not_space: "\<not> is_py_space (CHR ''+'')" "\<not> is_py_space (CHR ''-'')"
  by (simp_all add: is_py_space_def)

lemma digit_groups_Nil: "\<not> digit_groups []"
  by (auto elim: digit_groups.cases)

lemma digit_groups_Cons:
  "digit_groups (d # ds) \<longleftrightarrow>
     is_digit d \<and> (ds = [] \<or> digit_groups ds \<or> (\<exists>r. ds = CHR ''_'' # r \<and> digit_groups r))"
  by (subst digit_groups.simps) auto

lemma digit_groups_last: "digit_groups s \<Longrightarrow> is_digit (last s)"
  by (induction rule: digit_groups.induct) (auto simp: digit_groups_Nil)

lemma digit_groups_hd: "digit_groups s \<Longrightarrow> s \<noteq> [] \<and> is_digit (hd s)"
  by (induction rule: digit_groups.induct) auto

lemma digits_from_None_iff:
  "digits_from acc ds = None \<longleftrightarrow>
     \<not> (ds = [] \<or> digit_groups ds \<or> (\<exists>r. ds = CHR ''_'' # r \<and> digit_groups r))"
proof (induction acc ds rule: digits_from.induct)
  case (1 acc)
  show ?case by simp
next
  case (2 acc c)
  show ?case
  proof (cases "digit_val c")
    case None
    then have "\<not> is_digit c" by (simp add: digit_val_None_iff)
    with None show ?thesis
      by (simp add: digit_groups_Cons digit_groups_Nil)
  next
    case (Some v)
    then have "is_digit c" using digit_val_None_iff [of c] by simp
    with Some show ?thesis
      by (simp add: digit_groups_Cons)
  qed
next
  case (3 acc c d ds)
  show ?case
  proof (cases "c = CHR ''_''")
    case True
    show ?thesis
    proof (cases "digit_val d")
      case None
      then have "\<not> is_digit d" by (simp add: digit_val_None_iff)
      with True None show ?thesis
        by (simp add: digit_groups_Cons underscore_not_digit)
    next
      case (Some v)
      then have "is_digit d" using digit_val_None_iff [of d] by simp
      with True Some "3.IH"(1) [OF True Some] show ?thesis
        by (simp add: digit_groups_Cons underscore_not_digit)
    qed
  next
    case False
    show ?thesis
    proof (cases "digit_val c")
      case None
      then have "\<not> is_digit c" by (simp add: digit_val_None_iff)
      with False None show ?thesis
        by (simp add: digit_groups_Cons)
    next
      case (Some v)
      then have "is_digit c" using digit_val_None_iff [of c] by simp
      with False Some "3.IH"(2) [OF False Some] show ?thesis
        by (simp add: digit_groups_Cons [of c])
    qed
  qed
qed

lemma digits_None_iff:
  "(case digit_val d of None \<Rightarrow> None | Some v \<Rightarrow> digits_from v ds) = None \<longleftrightarrow>
     \<not> digit_groups (d # ds)"
proof (cases "digit_val d")
  case None
  then have "\<not> is_digit d" by (simp add: digit_val_None_iff)
  with None show ?thesis by (simp add: digit_groups_Cons)
next
  case (Some v)
  then have "is_digit d" using digit_val_None_iff [of d] by simp
  with Some show ?thesis
    by (simp add: digits_from_None_iff digit_groups_Cons [of d])
qed

lemma body_None_iff:
  "(case r of [] \<Rightarrow> None
    | d # ds \<Rightarrow>
        (case digit_val d of None \<Rightarrow> None
         | Some v \<Rightarrow> (case digits_from v ds of None \<Rightarrow> None | Some n \<Rightarrow> Some (f n)))) = None
   \<longleftrightarrow> \<not> digit_groups r"
proof (cases r)
  case Nil
  then show ?thesis by (simp add: digit_groups_Nil)
next
  case (Cons d ds)
  have "(case digit_val d of None \<Rightarrow> None
         | Some v \<Rightarrow> (case digits_from v ds of None \<Rightarrow> None | Some n \<Rightarrow> Some (f n))) = None
        \<longleftrightarrow> (case digit_val d of None \<Rightarrow> None | Some v \<Rightarrow> digits_from v ds) = None"
    by (simp split: option.splits)
  with Cons show ?thesis by (simp add: digits_None_iff)
qed

lemma long_from_string_None_strip:
  "long_from_string s = None \<longleftrightarrow>
     \<not> (\<exists>sign body. strip s = sign @ body \<and> (sign = [] \<or> sign = ''+'' \<or> sign = ''-'') \<and>
            digit_groups body)"
proof (cases "strip s")
  case Nil
  then show ?thesis
    by (simp add: long_from_string_def digit_groups_Nil)
next
  case (Cons c cs)
  show ?thesis
  proof (cases "c = CHR ''-'' \<or> c = CHR ''+''")
    case True
    then have nd: "\<not> is_digit c" using sign_not_digit by auto
    have "long_from_string s =
        (case cs of [] \<Rightarrow> None
         | d # ds \<Rightarrow>
             (case digit_val d of None \<Rightarrow> None
              | Some v \<Rightarrow>
                  (case digits_from v ds of None \<Rightarrow> None
                   | Some n \<Rightarrow> Some (if c = CHR ''-'' then - n else n))))"
      using Cons True by (auto simp: long_from_string_def Let_def split: list.splits option.splits)
    then have "long_from_string s = None \<longleftrightarrow> \<not> digit_groups cs"
      by (simp only: body_None_iff [where r = cs and f = "\<lambda>n. if c = CHR ''-'' then - n else n"])
    moreover have "(\<exists>sign body. c # cs = sign @ body \<and> (sign = [] \<or> sign = ''+'' \<or> sign = ''-'') \<and>
            digit_groups body) \<longleftrightarrow> digit_groups cs"
    proof
      assume "\<exists>sign body. c # cs = sign @ body \<and> (sign = [] \<or> sign = ''+'' \<or> sign = ''-'') \<and>
            digit_groups body"
      then obtain sign body where e: "c # cs = sign @ body"
        and sg: "sign = [] \<or> sign = ''+'' \<or> sign = ''-''" and dg: "digit_groups body"
        by blast
      from sg show "digit_groups cs"
      proof (elim disjE)
        assume "sign = []"
        with e dg have "digit_groups (c # cs)" by simp
        with nd show ?thesis by (simp add: digit_groups_Cons)
      next
        assume "sign = ''+''"
        with e dg show ?thesis by simp
      next
        assume "sign = ''-''"
        with e dg show ?thesis by simp
      qed
    next
      assume dg: "digit_groups cs"
      from True show "\<exists>sign body. c # cs = sign @ body \<and> (sign = [] \<or> sign = ''+'' \<or> sign = ''-'') \<and>
            digit_groups body"
      proof
        assume "c = CHR ''-''"
        with dg show ?thesis by (intro exI [of _ "''-''"] exI [of _ cs]) simp
      next
        assume "c = CHR ''+''"
        with dg show ?thesis by (intro exI [of _ "''+''"] exI [of _ cs]) simp
      qed
    qed
    ultimately show ?thesis unfolding Cons by simp
  next
    case False
    have "long_from_string s =
        (case c # cs of [] \<Rightarrow> None
         | d # ds \<Rightarrow>
             (case digit_val d of None \<Rightarrow> None
              | Some v \<Rightarrow>
                  (case digits_from v ds of None \<Rightarrow> None
                   | Some n \<Rightarrow> Some (if c = CHR ''-'' then - n else n))))"
      using Cons False by (auto simp: long_from_string_def Let_def split: list.splits option.splits)
    then have "long_from_string s = None \<longleftrightarrow> \<not> digit_groups (c # cs)"
      by (simp only: body_None_iff [where r = "c # cs" and f = "\<lambda>n. if c = CHR ''-'' then - n else n"])
    moreover have "(\<exists>sign body. c # cs = sign @ body \<and> (sign = [] \<or> sign = ''+'' \<or> sign = ''-'') \<and>
            digit_groups body) \<longleftrightarrow> digit_groups (c # cs)"
    proof
      assume "\<exists>sign body. c # cs = sign @ body \<and> (sign = [] \<or> sign = ''+'' \<or> sign = ''-'') \<and>
            digit_groups body"
      then obtain sign body where e: "c # cs = sign @ body"
        and sg: "sign = [] \<or> sign = ''+'' \<or> sign = ''-''" and dg: "digit_groups body"
        by blast
      from sg show "digit_groups (c # cs)"
      proof (elim disjE)
        assume "sign = []"
        with e dg show ?thesis by simp
      next
        assume "sign = ''+''"
        with e False show ?thesis by simp
      next
        assume "sign = ''-''"
        with e False show ?thesis by simp
      qed
    next
      assume "digit_groups (c # cs)"
      then show "\<exists>sign body. c # cs = sign @ body \<and> (sign = [] \<or> sign = ''+'' \<or> sign = ''-'') \<and>
            digit_groups body"
        by (intro exI [of _ "[]"] exI [of _ "c # cs"]) simp
    qed
    ultimately show ?thesis unfolding Cons by simp
  qed
qed

lemma dropWhile_hd: "xs \<noteq> [] \<Longrightarrow> \<not> P (hd xs) \<Longrightarrow> dropWhile P xs = xs"
  by (cases xs) simp_all

lemma dropWhile_all_append:
  "list_all P xs \<Longrightarrow> ys \<noteq> [] \<Longrightarrow> \<not> P (hd ys) \<Longrightarrow> dropWhile P (xs @ ys @ zs) = ys @ zs"
  by (induction xs) (simp_all add: dropWhile_hd)

lemma strip_core:
  assumes pre: "list_all is_py_space pre" and post: "list_all is_py_space post"
    and core: "core \<noteq> []" "\<not> is_py_space (hd core)" "\<not> is_py_space (last core)"
  shows "strip (pre @ core @ post) = core"
proof -
  have "rev (pre @ core @ post) = rev post @ rev core @ rev pre"
    by simp
  moreover have "dropWhile is_py_space (rev post @ rev core @ rev pre) = rev core @ rev pre"
    using post core by (intro dropWhile_all_append) (simp_all add: hd_rev)
  ultimately have "rev (dropWhile is_py_space (rev (pre @ core @ post))) = pre @ core @ []"
    by simp
  moreover have "dropWhile is_py_space (pre @ core @ []) = core @ []"
    using pre core by (intro dropWhile_all_append) simp_all
  ultimately show ?thesis by (simp add: strip_def)
qed

lemma strip_decomp:
  "\<exists>pre post. s = pre @ strip s @ post \<and> list_all is_py_space pre \<and> list_all is_py_space post"
proof -
  define s' where "s' = rev (dropWhile is_py_space (rev s))"
  define post where "post = rev (takeWhile is_py_space (rev s))"
  define pre where "pre = takeWhile is_py_space s'"
  have "s' @ post = rev (takeWhile is_py_space (rev s) @ dropWhile is_py_space (rev s))"
    unfolding s'_def post_def by (simp only: rev_append)
  then have s: "s = s' @ post" by simp
  have "s' = pre @ strip s"
    unfolding pre_def strip_def s'_def by simp
  with s have "s = pre @ strip s @ post" by simp
  moreover have "list_all is_py_space pre" "list_all is_py_space post"
    unfolding pre_def post_def list_all_iff by (auto dest: set_takeWhileD)
  ultimately show ?thesis by blast
qed

lemma long_from_string_None_iff: "long_from_string s = None \<longleftrightarrow> \<not> int_literal s"
proof -
  have "int_literal s \<longleftrightarrow>
      (\<exists>sign body. strip s = sign @ body \<and> (sign = [] \<or> sign = ''+'' \<or> sign = ''-'') \<and>
         digit_groups body)"
  proof
    assume "int_literal s"
    then obtain pre sign body post where s: "s = pre @ sign @ body @ post"
      and sp: "list_all is_py_space pre" "list_all is_py_space post"
      and sg: "sign = [] \<or> sign = ''+'' \<or> sign = ''-''" and dg: "digit_groups body"
      unfolding int_literal_def by blast
    from dg have b: "body \<noteq> []" "is_digit (hd body)" "is_digit (last body)"
      using digit_groups_hd digit_groups_last by blast+
    have c1: "sign @ body \<noteq> []" using b by simp
    have c2: "\<not> is_py_space (hd (sign @ body))"
      using sg b digit_not_space sign_not_space by (auto simp: hd_append)
    have c3: "\<not> is_py_space (last (sign @ body))"
      using b digit_not_space by simp
    have "strip (pre @ (sign @ body) @ post) = sign @ body"
      by (rule strip_core [OF sp c1 c2 c3])
    then have "strip s = sign @ body" unfolding s by simp
    with sg dg show "\<exists>sign body. strip s = sign @ body \<and>
        (sign = [] \<or> sign = ''+'' \<or> sign = ''-'') \<and> digit_groups body"
      by blast
  next
    assume "\<exists>sign body. strip s = sign @ body \<and>
        (sign = [] \<or> sign = ''+'' \<or> sign = ''-'') \<and> digit_groups body"
    then obtain sign body where st: "strip s = sign @ body"
      and sg: "sign = [] \<or> sign = ''+'' \<or> sign = ''-''" and dg: "digit_groups body"
      by blast
    from strip_decomp [of s] obtain pre post where "s = pre @ strip s @ post"
      and sp: "list_all is_py_space pre" "list_all is_py_space post"
      by blast
    then have "s = pre @ sign @ body @ post" unfolding st by simp
    with sp sg dg show "int_literal s" unfolding int_literal_def by blast
  qed
  then show ?thesis by (simp only: long_from_string_None_strip)
qed

lemma to_ascii_ascii: "list_all (\<lambda>c. (of_char c :: nat) < 128) s \<Longrightarrow> to_ascii s = s"
  by (simp add: to_ascii_def)

lemma str_to_int_None_iff: "str_to_int s = None \<longleftrightarrow> \<not> int_literal (to_ascii s)"
  by (simp only: str_to_int_def long_from_string_None_iff)

lemma py_int_raises_iff:
  "(\<exists>e. py_int x = Inl e) \<longleftrightarrow>
     x = PyNone \<or> x = PyNaN \<or> x = PyInf \<or> x = PyOther \<or>
     (\<exists>s. x = PyStr s \<and> \<not> int_literal (to_ascii s))"
proof (cases x)
  case (PyStr s)
  then show ?thesis
    using str_to_int_None_iff [of s] by (cases "str_to_int s") simp_all
qed simp_all

section \<open>Properties of the double arithmetic\<close>

text \<open>
  Rounding to a double moves a number by at most half a unit of its binade, and integers
  below \<open>2 ^ 53\<close> are doubles. So for a timestamp below \<open>2 ^ 53\<close> milliseconds the whole
  seconds of \<^verbatim>\<open>ts/1000.0\<close> are those of the exact quotient, and below \<open>2 ^ 33\<close> seconds
  (the year 2242) the microseconds are exact too.
\<close>

lemma rhe_error: "\<bar>of_int (round_half_even x) - x\<bar> \<le> 1 / 2"
proof -
  have "of_int \<lfloor>x\<rfloor> \<le> x" "x < of_int \<lfloor>x\<rfloor> + 1"
    by linarith+
  then show ?thesis
    unfolding round_half_even_def Let_def by (simp split: if_splits)
qed

lemma rhe_of_int: "round_half_even (of_int z) = z"
  unfolding round_half_even_def Let_def by simp

lemma rhe_near:
  assumes "\<bar>x - of_int z\<bar> < 1 / 2"
  shows "round_half_even x = z"
proof -
  have "\<bar>(of_int (round_half_even x) :: rat) - of_int z\<bar> < 1"
    using rhe_error [of x] assms by linarith
  then have "\<bar>(of_int (round_half_even x - z) :: rat)\<bar> < 1"
    by simp
  then have "\<bar>round_half_even x - z\<bar> < 1"
    by (metis of_int_abs of_int_less_1_iff)
  then show ?thesis by linarith
qed

lemma pow2_pos: "0 < pow2 e"
  by (simp add: pow2_def)

lemma pow2_le:
  assumes "e \<le> - int m"
  shows "pow2 e \<le> 1 / 2 ^ m"
proof -
  from assms have "m \<le> nat (- e)" by linarith
  then have "(2::rat) ^ m \<le> 2 ^ nat (- e)"
    by (rule power_increasing) simp
  then have "1 / (2::rat) ^ nat (- e) \<le> 1 / 2 ^ m"
    by (simp add: frac_le)
  moreover from assms have "pow2 e = 1 / 2 ^ nat (- e)"
    by (cases "e = 0") (simp_all add: pow2_def)
  ultimately show ?thesis by simp
qed


lemma binade_le:
  assumes x: "x \<noteq> 0" and lt: "\<bar>x\<bar> < 2 ^ Suc K"
  shows "binade x \<le> int K"
proof -
  obtain a b where q: "quotient_of \<bar>x\<bar> = (a, b)"
    by (cases "quotient_of \<bar>x\<bar>")
  have b: "0 < b" by (rule quotient_of_denom_pos [OF q])
  have ax: "\<bar>x\<bar> = of_int a / of_int b" by (rule quotient_of_div [OF q])
  from x have "0 < \<bar>x\<bar>" by simp
  with ax b have a: "0 < a"
    by (simp add: zero_less_divide_iff)
  from lt ax b have ab: "a < b * 2 ^ Suc K"
  proof -
    from lt ax b have "(of_int a :: rat) < 2 ^ Suc K * of_int b"
      by (simp add: pos_divide_less_eq)
    then have "(of_int a :: rat) < of_int (b * 2 ^ Suc K)"
      by (simp add: mult.commute)
    then show ?thesis by (simp only: of_int_less_iff)
  qed
  define k where "k = bitlen a - bitlen b"
  have res: "binade x = (if (if 0 \<le> k then b * 2 ^ nat k \<le> a else b \<le> a * 2 ^ nat (- k))
                          then k else k - 1)"
    unfolding binade_def q k_def Let_def by simp
  show ?thesis
  proof (cases "k \<le> int K")
    case True
    then show ?thesis unfolding res by simp
  next
    case False
    then have kK: "int K + 1 \<le> k" by simp
    then have k0: "0 \<le> k" by simp
    from kK have "Suc K \<le> nat k" by linarith
    then have "(2::int) ^ Suc K \<le> 2 ^ nat k"
      by (rule power_increasing) simp
    with b have "b * 2 ^ Suc K \<le> b * 2 ^ nat k"
      by (simp add: mult_left_mono)
    with ab have notle: "\<not> b * 2 ^ nat k \<le> a" by linarith
    have la: "2 ^ nat (bitlen a - 1) \<le> a" using bitlen_bounds [OF a] by simp
    have lb: "b < 2 ^ nat (bitlen b)" using bitlen_bounds [OF b] by simp
    have st: "b * 2 ^ Suc K < 2 ^ nat (bitlen b) * 2 ^ Suc K"
      using lb by (intro mult_strict_right_mono) simp_all
    have "(2::int) ^ nat (bitlen a - 1) < 2 ^ nat (bitlen b) * 2 ^ Suc K"
      using la ab st by linarith
    then have "(2::int) ^ nat (bitlen a - 1) < 2 ^ (nat (bitlen b) + Suc K)"
      by (simp only: power_add)
    then have "nat (bitlen a - 1) < nat (bitlen b) + Suc K"
      by (rule power_less_imp_less_exp [rotated]) simp
    moreover have "0 \<le> bitlen b" by (rule bitlen_nonneg)
    ultimately have "k - 1 \<le> int K" unfolding k_def by linarith
    with notle k0 show ?thesis unfolding res by simp
  qed
qed

lemma to_double_error:
  assumes lt: "\<bar>x\<bar> < 2 ^ Suc K" and K: "K \<le> 52"
  shows "\<bar>to_double x - x\<bar> \<le> 1 / 2 ^ (53 - K)"
proof (cases "x = 0")
  case True
  then show ?thesis by (simp add: to_double_def)
next
  case False
  define u where "u = pow2 (binade x - 52)"
  have u: "0 < u" unfolding u_def by (rule pow2_pos)
  have "binade x - 52 \<le> - int (52 - K)"
    using binade_le [OF False lt] K by linarith
  then have ule: "u \<le> 1 / 2 ^ (52 - K)"
    unfolding u_def by (rule pow2_le)
  have td: "to_double x = of_int (round_half_even (x / u)) * u"
    using False by (simp add: to_double_def u_def Let_def)
  have "to_double x - x = (of_int (round_half_even (x / u)) - x / u) * u"
    using u by (simp add: td algebra_simps)
  then have "\<bar>to_double x - x\<bar> = \<bar>of_int (round_half_even (x / u)) - x / u\<bar> * u"
    using u by (simp add: abs_mult)
  also have "\<dots> \<le> 1 / 2 * u"
    using rhe_error [of "x / u"] u by (simp add: mult_right_mono)
  also have "\<dots> \<le> 1 / 2 * (1 / 2 ^ (52 - K))"
    using ule by simp
  also have "\<dots> = 1 / 2 ^ Suc (52 - K)"
    by simp
  also have "Suc (52 - K) = 53 - K"
    using K by simp
  finally show ?thesis .
qed

lemma to_double_of_int:
  assumes "\<bar>z\<bar> < 2 ^ 53"
  shows "to_double (of_int z) = of_int z"
proof (cases "z = 0")
  case True
  then show ?thesis by (simp add: to_double_def)
next
  case False
  then have nz: "(of_int z :: rat) \<noteq> 0" by simp
  have "\<bar>(of_int z :: rat)\<bar> < 2 ^ Suc 52"
  proof -
    from assms have "(of_int \<bar>z\<bar> :: rat) < of_int (2 ^ 53)"
      by (simp only: of_int_less_iff)
    then show ?thesis by simp
  qed
  from binade_le [OF nz this] have e: "binade (of_int z) - 52 \<le> 0" by simp
  define m where "m = nat (- (binade (of_int z) - 52))"
  have u: "pow2 (binade (of_int z) - 52) = 1 / 2 ^ m"
    using e by (cases "binade (rat_of_int z) - 52 = 0") (simp_all add: pow2_def m_def)
  have "(of_int z :: rat) / (1 / 2 ^ m) = of_int (z * 2 ^ m)"
    by simp
  then have "round_half_even (of_int z / (1 / 2 ^ m)) = z * 2 ^ m"
    by (simp only: rhe_of_int)
  then show ?thesis
    using nz by (simp add: to_double_def u Let_def)
qed

lemma micros_near:
  assumes "\<bar>fr\<bar> < 1"
  shows "\<bar>of_int (round_half_even (to_double (fr * 1000000))) - fr * 1000000\<bar>
           \<le> 1 / 2 + 1 / 2 ^ 34"
proof -
  have "\<bar>fr * 1000000\<bar> < 1000000"
    using assms by (simp add: abs_mult)
  then have "\<bar>fr * 1000000\<bar> < 2 ^ Suc 19"
    by simp
  from to_double_error [OF this] have "\<bar>to_double (fr * 1000000) - fr * 1000000\<bar> \<le> 1 / 2 ^ 34"
    by simp
  with rhe_error [of "to_double (fr * 1000000)"] show ?thesis
    by linarith
qed

lemma timeval_of_int: "timeval_of (of_int s) = (s, 0)"
proof -
  have "round_half_even (to_double 0) = 0"
    using rhe_of_int [of 0] by (simp add: to_double_def)
  then show ?thesis
    unfolding timeval_of_def Let_def by simp
qed

lemma timeval_of_near:
  fixes n :: int and q \<epsilon> :: rat
  assumes near: "\<bar>q - of_int n / 1000\<bar> \<le> \<epsilon>" and eps: "\<epsilon> \<le> 1 / 1024"
    and exact: "n mod 1000 = 0 \<Longrightarrow> q = of_int n / 1000"
  shows "fst (timeval_of q) = n div 1000 \<and>
         \<bar>of_int (snd (timeval_of q)) - of_int ((n mod 1000) * 1000)\<bar>
           \<le> 1000000 * \<epsilon> + 1 / 2 + 1 / 2 ^ 34 \<and>
         0 \<le> snd (timeval_of q) \<and> snd (timeval_of q) < 1000000"
proof -
  define s where "s = n div 1000"
  define j where "j = n mod 1000"
  have j: "0 \<le> j" "j < 1000" by (simp_all add: j_def)
  have "n = s * 1000 + j" by (simp add: s_def j_def)
  then have r: "(of_int n :: rat) / 1000 = of_int s + of_int j / 1000"
    by simp
  from near have e0: "0 \<le> \<epsilon>" by linarith
  show ?thesis
  proof (cases "j = 0")
    case True
    with exact r have "q = of_int s" by (simp add: j_def)
    with True e0 show ?thesis
      by (simp add: timeval_of_int s_def [symmetric] j_def [symmetric])
  next
    case False
    with j have j1: "(1::rat) \<le> of_int j" "(of_int j :: rat) \<le> 999"
      by simp_all
    from near r have qlo: "of_int s + of_int j / 1000 - \<epsilon> \<le> q"
      and qhi: "q \<le> of_int s + of_int j / 1000 + \<epsilon>"
      by linarith+
    from qlo j1 eps have slt: "of_int s < q" by linarith
    from qhi j1 eps have ltS: "q < of_int s + 1" by linarith
    show ?thesis
    proof (cases "0 \<le> q")
      case True
      have ip: "\<lfloor>q\<rfloor> = s"
        using slt ltS by (intro floor_unique) simp_all
      define fr where "fr = q - of_int s"
      define u where "u = round_half_even (to_double (fr * 1000000))"
      have "\<bar>fr\<bar> < 1" using slt ltS by (simp add: fr_def)
      from micros_near [OF this]
      have un: "\<bar>of_int u - fr * 1000000\<bar> \<le> 1 / 2 + 1 / 2 ^ 34"
        by (simp add: u_def)
      have frlo: "of_int j * 1000 - 1000000 * \<epsilon> \<le> fr * 1000000"
        and frhi: "fr * 1000000 \<le> of_int j * 1000 + 1000000 * \<epsilon>"
        using qlo qhi by (simp_all add: fr_def)
      from un frlo frhi have ub: "\<bar>(of_int u :: rat) - of_int j * 1000\<bar> \<le> 1000000 * \<epsilon> + 1 / 2 + 1 / 2 ^ 34"
        by linarith
      from ub j1 eps have "(0::rat) < of_int u" "(of_int u :: rat) < 1000000"
        by (simp_all add: abs_le_iff)
      then have u0: "0 \<le> u" "u < 1000000" by simp_all
      have ipq: "(if 0 \<le> q then \<lfloor>q\<rfloor> else \<lceil>q\<rceil>) = s"
        using True ip by simp
      have "timeval_of q = (s, u)"
        unfolding timeval_of_def Let_def ipq fr_def [symmetric] u_def [symmetric]
        using u0 by simp
      with ub u0 show ?thesis
        by (simp add: s_def [symmetric] j_def [symmetric])
    next
      case False
      have ip: "\<lceil>q\<rceil> = s + 1"
        using slt ltS by (intro ceiling_unique) simp_all
      define fr where "fr = q - of_int (s + 1)"
      define u where "u = round_half_even (to_double (fr * 1000000))"
      have "\<bar>fr\<bar> < 1" using slt ltS by (simp add: fr_def)
      from micros_near [OF this]
      have un: "\<bar>of_int u - fr * 1000000\<bar> \<le> 1 / 2 + 1 / 2 ^ 34"
        by (simp add: u_def)
      have frlo: "of_int j * 1000 - 1000000 - 1000000 * \<epsilon> \<le> fr * 1000000"
        and frhi: "fr * 1000000 \<le> of_int j * 1000 - 1000000 + 1000000 * \<epsilon>"
        using qlo qhi by (simp_all add: fr_def)
      from un frlo frhi
      have ub': "\<bar>(of_int u :: rat) + 1000000 - of_int j * 1000\<bar> \<le> 1000000 * \<epsilon> + 1 / 2 + 1 / 2 ^ 34"
        by linarith
      then have ub: "\<bar>(of_int (u + 1000000) :: rat) - of_int j * 1000\<bar> \<le> 1000000 * \<epsilon> + 1 / 2 + 1 / 2 ^ 34"
        by simp
      have "(1::rat) / 2 ^ 34 \<le> 1 / 1024" by simp
      with ub' j1 eps have "(of_int u :: rat) < 0"
        by linarith
      then have u0: "u < 0" by simp
      have ipq: "(if 0 \<le> q then \<lfloor>q\<rfloor> else \<lceil>q\<rceil>) = s + 1"
        using False ip by simp
      have "timeval_of q = (s, u + 1000000)"
        unfolding timeval_of_def Let_def ipq fr_def [symmetric] u_def [symmetric]
        using u0 by simp
      moreover have "0 \<le> u + 1000000"
      proof -
        have "(1::rat) / 2 ^ 34 \<le> 1 / 1024" by simp
        with ub' j1 eps have "(0::rat) \<le> of_int u + 1000000" by linarith
        then have "(0::rat) \<le> of_int (u + 1000000)" by simp
        then show ?thesis by (simp only: of_int_0_le_iff)
      qed
      ultimately show ?thesis
        using ub u0 by (simp add: s_def [symmetric] j_def [symmetric])
    qed
  qed
qed

lemma quotient_error:
  assumes n53: "\<bar>n\<bar> < 2 ^ 53" and n: "\<bar>n\<bar> < 1000 * 2 ^ Suc K" and K: "K \<le> 43"
  shows "\<bar>to_double (to_double (of_int n) / 1000) - of_int n / 1000\<bar> \<le> 1 / 2 ^ (53 - K) \<and>
         (n mod 1000 = 0 \<longrightarrow> to_double (to_double (of_int n) / 1000) = of_int n / 1000)"
proof -
  from n53 have ti: "to_double (of_int n) = of_int n"
    by (rule to_double_of_int)
  from n have "(of_int \<bar>n\<bar> :: rat) < of_int (1000 * 2 ^ Suc K)"
    by (simp only: of_int_less_iff)
  then have "\<bar>(of_int n :: rat) / 1000\<bar> < 2 ^ Suc K"
    by simp
  from to_double_error [OF this] K
  have e: "\<bar>to_double (of_int n / 1000) - of_int n / 1000\<bar> \<le> 1 / 2 ^ (53 - K)"
    by simp
  have x: "to_double (of_int n / 1000) = of_int n / 1000" if "n mod 1000 = 0"
  proof -
    define m where "m = n div 1000"
    have nm: "n = m * 1000"
      using div_mult_mod_eq [of n 1000] that unfolding m_def by linarith
    have eq: "(of_int n :: rat) / 1000 = of_int m"
      unfolding nm by simp
    from n53 nm have "\<bar>m\<bar> < 2 ^ 53" by linarith
    then show ?thesis unfolding eq by (rule to_double_of_int)
  qed
  show ?thesis
    unfolding ti using e x by (intro conjI impI)
qed

lemma timeval_exact:
  assumes "\<bar>n\<bar> < 8589934592000"
  shows "timeval_of (to_double (to_double (of_int n) / 1000)) = (n div 1000, n mod 1000 * 1000)"
proof -
  let ?q = "to_double (to_double (of_int n) / 1000)"
  from assms have "\<bar>n\<bar> < 2 ^ 53" "\<bar>n\<bar> < 1000 * 2 ^ Suc 32" by simp_all
  from quotient_error [OF this]
  have e: "\<bar>?q - of_int n / 1000\<bar> \<le> 1 / 2 ^ 21"
    and x: "n mod 1000 = 0 \<Longrightarrow> ?q = of_int n / 1000"
    by simp_all
  have "(1::rat) / 2 ^ 21 \<le> 1 / 1024" by simp
  from timeval_of_near [OF e this x]
  have f: "fst (timeval_of ?q) = n div 1000"
    and s: "\<bar>(of_int (snd (timeval_of ?q)) :: rat) - of_int (n mod 1000 * 1000)\<bar>
              \<le> 1000000 * (1 / 2 ^ 21) + 1 / 2 + 1 / 2 ^ 34"
    by simp_all
  have "(1000000::rat) * (1 / 2 ^ 21) + 1 / 2 + 1 / 2 ^ 34 < 1" by simp
  with s have "\<bar>(of_int (snd (timeval_of ?q) - n mod 1000 * 1000) :: rat)\<bar> < 1"
    by simp
  then have "(of_int \<bar>snd (timeval_of ?q) - n mod 1000 * 1000\<bar> :: rat) < of_int 1"
    by simp
  then have "\<bar>snd (timeval_of ?q) - n mod 1000 * 1000\<bar> < 1"
    by (simp only: of_int_less_iff)
  then have "snd (timeval_of ?q) = n mod 1000 * 1000" by linarith
  with f show ?thesis by (simp add: prod_eq_iff)
qed

lemma timeval_seconds:
  assumes "\<bar>n\<bar> < 2 ^ 53"
  shows "fst (timeval_of (to_double (to_double (of_int n) / 1000))) = n div 1000 \<and>
         0 \<le> snd (timeval_of (to_double (to_double (of_int n) / 1000))) \<and>
         snd (timeval_of (to_double (to_double (of_int n) / 1000))) < 1000000"
proof -
  let ?q = "to_double (to_double (of_int n) / 1000)"
  from assms have "\<bar>n\<bar> < 2 ^ 53" "\<bar>n\<bar> < 1000 * 2 ^ Suc 43" by simp_all
  from quotient_error [OF this]
  have e: "\<bar>?q - of_int n / 1000\<bar> \<le> 1 / 1024"
    and x: "n mod 1000 = 0 \<Longrightarrow> ?q = of_int n / 1000"
    by simp_all
  from timeval_of_near [OF e order_refl x] show ?thesis by simp
qed

lemma fromtimestamp_Inr:
  assumes "fromtimestamp tz q = Inr t"
  shows "t = (fst (timeval_of q) + tz (fst (timeval_of q))) * 1000000 + snd (timeval_of q)"
  using assms unfolding fromtimestamp_def Let_def
  by (cases "timeval_of q") (simp split: if_splits)

lemma format_datetime_Inr:
  assumes "format_datetime tz n = Inr t"
  shows "fromtimestamp tz (to_double (to_double (of_int n) / 1000)) = Inr t"
  using assms unfolding format_datetime_def by (simp split: if_splits)

lemma format_datetime_exact:
  assumes t: "format_datetime tz n = Inr t" and n: "\<bar>n\<bar> < 8589934592000"
  shows "t = n * 1000 + tz (n div 1000) * 1000000"
proof -
  define d where "d = n div 1000"
  define m where "m = n mod 1000"
  have nm: "n = d * 1000 + m" unfolding d_def m_def by simp
  have "t = (d + tz d) * 1000000 + m * 1000"
    using fromtimestamp_Inr [OF format_datetime_Inr [OF t]]
    unfolding timeval_exact [OF n] d_def m_def by simp
  then have "t = (d * 1000 + m) * 1000 + tz d * 1000000"
    by (simp add: algebra_simps)
  then have "t = n * 1000 + tz d * 1000000"
    by (simp only: nm [symmetric])
  then show ?thesis unfolding d_def .
qed

lemma format_datetime_seconds:
  assumes t: "format_datetime tz n = Inr t" and n: "\<bar>n\<bar> < 2 ^ 53"
  shows "t div 1000000 = n div 1000 + tz (n div 1000)"
proof -
  let ?tv = "timeval_of (to_double (to_double (of_int n) / 1000))"
  from timeval_seconds [OF n] have f: "fst ?tv = n div 1000"
    and u: "0 \<le> snd ?tv" "snd ?tv < 1000000"
    by simp_all
  have "t = (n div 1000 + tz (n div 1000)) * 1000000 + snd ?tv"
    using fromtimestamp_Inr [OF format_datetime_Inr [OF t]] unfolding f by simp
  with u show ?thesis by simp
qed

section \<open>The examples evaluated\<close>

lemma year_month_nov_2018:
  assumes "17846 \<le> d" "d \<le> 17848"
  shows "sql_year d = 2018 \<and> sql_month d = 11"
proof -
  from assms have "d = 17846 \<or> d = 17847 \<or> d = 17848" by arith
  then show ?thesis
    unfolding sql_year_def sql_month_def civil_from_days_def Let_def
    by (elim disjE) simp_all
qed

lemma ym_17847: "sql_year 17847 = 2018 \<and> sql_month 17847 = 11"
  by (rule year_month_nov_2018) simp_all

lemma calendar_17847:
  "sql_hour 17847 = 0 \<and> sql_dayofmonth 17847 = 12 \<and> sql_weekofyear 17847 = 46 \<and>
   sql_dayofweek 17847 = 2"
  unfolding sql_hour_def sql_dayofmonth_def sql_weekofyear_def sql_dayofweek_def sql_year_def
    civil_from_days_def days_from_civil_def Let_def
  by simp

lemma year_ok_range:
  assumes "1541731058 \<le> x" "x \<le> 1542249458"
  shows "year_ok x"
proof -
  from assms(1) have "1541731058 div 86400 \<le> x div 86400"
    by (rule zdiv_mono1) simp
  moreover from assms(2) have "x div 86400 \<le> 1542249458 div 86400"
    by (rule zdiv_mono1) simp
  ultimately have "17844 \<le> x div 86400" "x div 86400 \<le> 17850"
    by simp_all
  then have "x div 86400 = 17844 \<or> x div 86400 = 17845 \<or> x div 86400 = 17846 \<or>
      x div 86400 = 17847 \<or> x div 86400 = 17848 \<or> x div 86400 = 17849 \<or> x div 86400 = 17850"
    by arith
  then have "sql_year (x div 86400) = 2018"
    unfolding sql_year_def civil_from_days_def Let_def
    by (elim disjE) simp_all
  then show ?thesis
    unfolding year_ok_def Let_def by simp
qed

lemma format_datetime_tom:
  assumes tz: "\<forall>x. - 86400 \<le> tz x \<and> tz x \<le> 86400"
  shows "format_datetime tz 1541990258796 = Inr (1541990258796000 + tz 1541990258 * 1000000)"
proof -
  let ?q = "to_double (to_double (of_int 1541990258796) / 1000)"
  have tv: "timeval_of ?q = (1541990258, 796000)"
    using timeval_exact [of 1541990258796] by simp
  define a where "a = tz 1541990258"
  define b where "b = tz (1541990258 - 86400)"
  define c where "c = tz (1541990258 + (a - b))"
  have a: "- 86400 \<le> a" "a \<le> 86400" and b: "- 86400 \<le> b" "b \<le> 86400"
    and c: "- 86400 \<le> c" "c \<le> 86400"
    using tz unfolding a_def b_def c_def by simp_all
  have y1: "year_ok (1541990258 + a)"
    using a by (intro year_ok_range) linarith+
  have y2: "year_ok (1541990258 - 86400 + b)"
    using b by (intro year_ok_range) linarith+
  have y3: "year_ok (1541990258 + (a - b) + c)"
    using a b c by (intro year_ok_range) linarith+
  have "fromtimestamp tz ?q = Inr ((1541990258 + a) * 1000000 + 796000)"
    unfolding fromtimestamp_def tv prod.case Let_def
      a_def [symmetric] b_def [symmetric] c_def [symmetric]
    using y1 y2 y3 by simp
  moreover have "format_datetime tz 1541990258796 = fromtimestamp tz ?q"
    unfolding format_datetime_def by simp
  ultimately show ?thesis
    unfolding a_def by (simp add: algebra_simps)
qed

lemma with_columns_log_tom: "with_columns (\<lambda>x. 0) log_tom = Inr cols_tom"
proof -
  have "format_datetime (\<lambda>x. 0) 1541990258796 = Inr 1541990258796000"
    using format_datetime_tom [of "\<lambda>x. 0"] by simp
  then show ?thesis
    by (simp add: with_columns_def get_timestamp_def get_datetime_def log_tom_def cols_tom_def)
qed

lemma format_datetime_2242: "format_datetime (\<lambda>x. 0) 8589934592001 = Inr 8589934592000999"
  by code_simp

lemma process_log_data_tom_ok:
  "fst (process_log_data (session_of [log_tom]) ''s3a://bucket-name/viraj/''
          ''s3a://bucket-name/viraj/output-'' Map.empty) = None"
  by (simp add: process_log_data_def session_of_def and_then_def write_parquet_def on_rows_def
      with_columns_log_tom [simplified log_tom_def] log_tom_def)

lemma main_example_ok: "fst (main (session_of [log_tom, log_home]) Map.empty) = None"
  by (simp add: main_def process_song_data_def process_log_data_def session_of_def
      and_then_def write_parquet_def on_rows_def
      with_columns_log_tom [simplified log_tom_def] log_tom_def log_home_def)

lemma with_columns_bad_ts:
  "with_columns (\<lambda>x. 0) (log_with_ts PyNone) = Inl TypeError"
  "with_columns (\<lambda>x. 0) (log_with_ts (PyStr ''abc'')) = Inl ValueError"
  "with_columns (\<lambda>x. 0) (log_with_ts (PyStr [CHR 0x1C, CHR ''1'', CHR ''2''])) = Inl ValueError"
  "with_columns (\<lambda>x. 0) (log_with_ts PyNaN) = Inl ValueError"
  "with_columns (\<lambda>x. 0) (log_with_ts PyInf) = Inl OverflowError"
  "with_columns (\<lambda>x. 0) (log_with_ts PyOther) = Inl TypeError"
  by (simp_all add: with_columns_def get_timestamp_def log_with_ts_def str_to_int_def
      to_ascii_def long_from_string_def strip_def is_py_space_def digit_val_def)

lemma not_int_literal_examples:
  "\<not> int_literal (to_ascii ''abc'')" "\<not> int_literal (to_ascii [CHR 0x1C, CHR ''1'', CHR ''2''])"
  unfolding str_to_int_None_iff [symmetric]
  by (simp_all add: str_to_int_def to_ascii_def long_from_string_def strip_def is_py_space_def
      digit_val_def)

lemma int_of_padded_string:
  "py_int (PyStr [CHR 0xA0, CHR ''1'', CHR ''2'', CHR 0x0A]) = Inr 12"
  by (simp add: str_to_int_def to_ascii_def long_from_string_def strip_def is_py_space_def
      digit_val_def)

lemma process_log_data_bad_ts:
  assumes "with_columns (\<lambda>x. 0) (log_with_ts x) = Inl e"
  shows "fst (process_log_data (session_of [log_tom, log_with_ts x]) ''s3a://bucket-name/viraj/''
            ''s3a://bucket-name/viraj/output-'' Map.empty) = Some (PythonException e)"
proof -
  have p: "page (log_with_ts x) = Some ''NextSong''" "page log_tom = Some ''NextSong''"
    by (simp_all add: log_with_ts_def log_tom_def)
  have "traverse (with_columns (\<lambda>x. 0)) [log_tom, log_with_ts x] = Inl e"
    by (simp add: with_columns_log_tom assms)
  then show ?thesis
    by (simp add: process_log_data_def session_of_def and_then_def write_parquet_def on_rows_def p)
qed

section \<open>The claims\<close>

subsection \<open>C1\<close>

text \<open>
  Claim C1. With one song record for "Tom's Diner" by Suzanne Vega (song S1, artist A1) and
  one log event for that song (page NextSong, ts 1541990258796, user "10"), the timestamp
  conversion succeeds and the songplays join emits exactly one row, whose keys are S1, A1
  and "10". The fields the claim leaves open are arbitrary, and so is the local time zone,
  as long as its offset from UTC is within a day.
\<close>

theorem C1_songplays_join_example:
  assumes s: "title s = Some ''Tom's Diner''" "artist_name s = Some ''Suzanne Vega''"
      "song_id s = Some ''S1''" "artist_id s = Some ''A1''"
    and l: "song l = Some ''Tom's Diner''" "artist l = Some ''Suzanne Vega''"
      "page l = Some ''NextSong''" "ts l = PyInt 1541990258796" "userId l = Some ''10''"
      "level l = Some ''free''" "sessionId l = Some 5" "location l = Some ''LA''"
      "userAgent l = Some ''UA''"
    and tz: "\<forall>x. - 86400 \<le> tz x \<and> tz x \<le> 86400"
  shows "\<exists>d. traverse (with_columns tz) (filter (\<lambda>r. page r = Some ''NextSong'') [l]) = Inr d \<and>
           songplays_table [s] d =
             [(1541990258796000 + tz 1541990258 * 1000000, 2018, 11, Some ''10'', Some ''free'',
               Some ''S1'', Some ''A1'', Some 5, Some ''LA'', Some ''UA'')]"
proof -
  define t where "t = 1541990258796000 + tz 1541990258 * 1000000"
  define dd where "dd = t div 86400000000"
  from tz have lo: "- 86400 \<le> tz 1541990258" and hi: "tz 1541990258 \<le> 86400"
    by simp_all
  from lo have "1541903858796000 \<le> t" unfolding t_def by simp
  then have "1541903858796000 div 86400000000 \<le> dd"
    unfolding dd_def by (rule zdiv_mono1) simp
  then have dlo: "17846 \<le> dd" by simp
  from hi have "t \<le> 1542076658796000" unfolding t_def by simp
  then have "dd \<le> 1542076658796000 div 86400000000"
    unfolding dd_def by (rule zdiv_mono1) simp
  then have dhi: "dd \<le> 17848" by simp
  note ym = year_month_nov_2018 [OF dlo dhi]
  have fd: "format_datetime tz 1541990258796 = Inr t"
    unfolding t_def by (rule format_datetime_tom [OF tz])
  have wc: "with_columns tz l =
      Inr \<lparr>artist = artist l, song = song l, page = page l, ts = ts l,
           userId = userId l, firstName = firstName l, lastName = lastName l,
           gender = gender l, level = level l, sessionId = sessionId l,
           location = location l, userAgent = userAgent l,
           start_time = t, datetime = dd\<rparr>"
    by (simp add: with_columns_def get_timestamp_def get_datetime_def l(4) fd dd_def)
  have "traverse (with_columns tz) (filter (\<lambda>r. page r = Some ''NextSong'') [l]) =
      Inr [\<lparr>artist = artist l, song = song l, page = page l, ts = ts l,
           userId = userId l, firstName = firstName l, lastName = lastName l,
           gender = gender l, level = level l, sessionId = sessionId l,
           location = location l, userAgent = userAgent l,
           start_time = t, datetime = dd\<rparr>]"
    by (simp add: l(3) wc)
  moreover have "songplays_table [s]
      [\<lparr>artist = artist l, song = song l, page = page l, ts = ts l,
           userId = userId l, firstName = firstName l, lastName = lastName l,
           gender = gender l, level = level l, sessionId = sessionId l,
           location = location l, userAgent = userAgent l,
           start_time = t, datetime = dd\<rparr>] =
      [(t, 2018, 11, Some ''10'', Some ''free'', Some ''S1'', Some ''A1'', Some 5,
        Some ''LA'', Some ''UA'')]"
    by (simp add: songplays_table_def songplays_join_def inner_join_def sql_eq_def
        songplays_row_of_def s l ym)
  ultimately show ?thesis unfolding t_def by blast
qed

theorem C1_songplays_join_example_witness:
  "\<exists>d. traverse (with_columns (\<lambda>x. 0)) (filter (\<lambda>r. page r = Some ''NextSong'') [log_tom]) = Inr d \<and>
       songplays_table [song_tom] d =
         [(1541990258796000, 2018, 11, Some ''10'', Some ''free'',
           Some ''S1'', Some ''A1'', Some 5, Some ''LA'', Some ''UA'')]"
  using C1_songplays_join_example [of song_tom log_tom "\<lambda>x. 0"]
  by (simp add: song_tom_def log_tom_def)

subsection \<open>C2\<close>

text \<open>
  Claim C2, as stated, fails: the join reads the song records as they are, so a matched
  record whose \<open>song_id\<close> is null yields a songplays row whose \<open>song_id\<close> is null.
\<close>

theorem C2_null_key_counterexample:
  "songplays_table [song_nokey] [cols_tom] =
     [(1541990258796000, 2018, 11, Some ''10'', Some ''free'', None, Some ''A1'', Some 5,
       Some ''LA'', Some ''UA'')]"
  by (simp add: songplays_table_def songplays_join_def inner_join_def sql_eq_def
      songplays_row_of_def song_nokey_def cols_tom_def ym_17847)

text \<open>
  Claim C2, amended. An event whose (song, artist) pair equals no song record's
  (title, artist\_name) appears in no joined pair; and every songplays row is built from an
  event of the filtered stream and a song record whose title and artist name are not null
  and equal the event's song and artist, and carries that record's \<open>song_id\<close> and
  \<open>artist_id\<close> as they are.
\<close>

theorem C2_join_rows_from_matches:
  "(\<forall>l. (\<forall>s \<in> set song_df. (title s, artist_name s) \<noteq> (song l, artist l)) \<longrightarrow>
        (\<forall>p \<in> set (songplays_join song_df (drop_duplicates start_time df)). snd p \<noteq> l)) \<and>
   (\<forall>row \<in> set (songplays_table song_df df).
      \<exists>s \<in> set song_df. \<exists>l \<in> set df.
        page l = Some ''NextSong'' \<and>
        title s \<noteq> None \<and> title s = song l \<and>
        artist_name s \<noteq> None \<and> artist_name s = artist l \<and>
        row = (start_time l, sql_year (datetime l), sql_month (datetime l), userId l, level l,
               song_id s, artist_id s, sessionId l, location l, userAgent l))"
proof (intro conjI allI impI ballI)
  fix l :: log_cols and p :: "song_rec \<times> log_cols"
  assume no: "\<forall>s \<in> set song_df. (title s, artist_name s) \<noteq> (song l, artist l)"
    and p: "p \<in> set (songplays_join song_df (drop_duplicates start_time df))"
  from p have "fst p \<in> set song_df" "title (fst p) = song (snd p)"
      "artist_name (fst p) = artist (snd p)"
    by (auto simp: set_songplays_join sql_eq_def)
  with no show "snd p \<noteq> l" by auto
next
  fix row
  assume "row \<in> set (songplays_table song_df df)"
  then obtain s l where sl: "(s, l) \<in> set (songplays_join song_df (drop_duplicates start_time df))"
    and row: "row = songplays_row_of (s, l)"
    by (auto simp: songplays_table_def)
  from sl have "s \<in> set song_df" "l \<in> set (drop_duplicates start_time df)"
      "page l = Some ''NextSong''" "sql_eq (title s) (song l)" "sql_eq (artist_name s) (artist l)"
    by (simp_all add: set_songplays_join)
  moreover from this(2) have "l \<in> set df"
    using set_drop_duplicates [of start_time df] by (rule_tac subsetD)
  ultimately show "\<exists>s \<in> set song_df. \<exists>l \<in> set df.
        page l = Some ''NextSong'' \<and>
        title s \<noteq> None \<and> title s = song l \<and>
        artist_name s \<noteq> None \<and> artist_name s = artist l \<and>
        row = (start_time l, sql_year (datetime l), sql_month (datetime l), userId l, level l,
               song_id s, artist_id s, sessionId l, location l, userAgent l)"
    unfolding row by (intro bexI [of _ s] bexI [of _ l]) (simp_all add: sql_eq_def songplays_row_of_def)
qed

theorem C2_join_rows_from_matches_witness:
  "set (songplays_join [song_tom] (drop_duplicates start_time [cols_tom, cols_other])) = {(song_tom, cols_tom)} \<and>
   songplays_table [song_tom] [cols_tom, cols_other] =
     [(1541990258796000, 2018, 11, Some ''10'', Some ''free'', Some ''S1'', Some ''A1'', Some 5,
       Some ''LA'', Some ''UA'')]"
  using C2_join_rows_from_matches [of "[song_tom]" "[cols_tom, cols_other]"]
  by (simp add: songplays_table_def songplays_join_def inner_join_def sql_eq_def
      songplays_row_of_def song_tom_def cols_tom_def cols_other_def ym_17847)

subsection \<open>C3\<close>

text \<open>
  Claim C3. For every input, the Songs, Artists and Users tables hold no row twice, and no
  row of them has a null key (\<open>song_id\<close>, \<open>artist_id\<close>, \<open>userId\<close>: the first column of each).
\<close>

theorem C3_dimension_tables_distinct_keys:
  "distinct (songs_table df) \<and> (\<forall>r \<in> set (songs_table df). fst r \<noteq> None) \<and>
   distinct (artists_table df) \<and> (\<forall>r \<in> set (artists_table df). fst r \<noteq> None) \<and>
   distinct (users_table ldf) \<and> (\<forall>r \<in> set (users_table ldf). fst r \<noteq> None)"
  using songs_table_ok [of df] artists_table_ok [of df] users_table_ok [of ldf] by blast

theorem C3_dimension_tables_distinct_keys_witness:
  "songs_table [song_tom, song_nokey, song_tom] =
     [(Some ''S1'', Some ''Tom's Diner'', Some ''A1'', Some 1987, None)] \<and>
   artists_table [song_tom, song_nokey, song_tom] =
     [(Some ''A1'', Some ''Suzanne Vega'', None, None, None)] \<and>
   users_table [log_tom, log_anon, log_tom] = [(Some ''10'', None, None, None, Some ''free'')]"
  using C3_dimension_tables_distinct_keys
    [of "[song_tom, song_nokey, song_tom]" "[log_tom, log_anon, log_tom]"]
  by (simp add: songs_table_def artists_table_def users_table_def song_tom_def song_nokey_def
      log_tom_def log_anon_def)

subsection \<open>C4\<close>

text \<open>
  Claim C4. What \<^verbatim>\<open>process_log_data\<close> does (the three tables it writes, and whether and
  how it fails) is decided by the log records whose page is "NextSong" alone: two log
  sources with the same such records, in the same order, give the same result, so a record
  with another page contributes no row to Users, Time or Songplays.
\<close>

theorem C4_only_nextsong_records_count:
  assumes "read_log_json s1 (input_data @ ''log-data/'') = Inr df1"
    and "read_log_json s2 (input_data @ ''log-data/'') = Inr df2"
    and "filter (\<lambda>r. page r = Some ''NextSong'') df1 = filter (\<lambda>r. page r = Some ''NextSong'') df2"
    and "read_song_json s1 = read_song_json s2"
    and "utcoffset s1 = utcoffset s2"
  shows "process_log_data s1 input_data output_data st =
         process_log_data s2 input_data output_data st"
  by (simp add: process_log_data_def assms)

theorem C4_only_nextsong_records_count_witness:
  "process_log_data (session_of [log_tom, log_home]) ''s3a://bucket-name/viraj/''
     ''s3a://bucket-name/viraj/output-'' Map.empty =
   process_log_data (session_of [log_tom]) ''s3a://bucket-name/viraj/''
     ''s3a://bucket-name/viraj/output-'' Map.empty \<and>
   fst (process_log_data (session_of [log_tom]) ''s3a://bucket-name/viraj/''
          ''s3a://bucket-name/viraj/output-'' Map.empty) = None"
  using C4_only_nextsong_records_count
    [of "session_of [log_tom, log_home]" "''s3a://bucket-name/viraj/''" "[log_tom, log_home]"
        "session_of [log_tom]" "[log_tom]" "''s3a://bucket-name/viraj/output-''" Map.empty]
    process_log_data_tom_ok
  by (simp add: session_of_def log_tom_def log_home_def)

subsection \<open>C5\<close>

text \<open>
  Claim C5. The Time row of a log record is a function of its \<open>ts\<close> value, given the local
  time zone: two records with the same \<open>ts\<close> give the same row, or fail alike. When the
  columns are computed, \<open>ts\<close> converts to an integer \<open>n\<close>, \<open>start_time\<close> is what
  \<^verbatim>\<open>format_datetime\<close> returns for it and the date is the day of that time. For
  \<open>\<bar>n\<bar> < 2 ^ 53\<close> the whole seconds of \<open>start_time\<close> are those of \<open>n\<close> milliseconds, moved
  by the local offset from UTC; for \<open>\<bar>n\<bar> < 8589934592000\<close> the microseconds are exact as
  well. Beyond that the double quotient \<^verbatim>\<open>ts/1000.0\<close> is too coarse: the witness shows the
  first timestamp whose microseconds come out as 999 where the exact value is 1000.
\<close>

theorem C5_time_row_depends_only_on_ts:
  fixes r1 r2 r :: log_rec
  shows "(ts r1 = ts r2 \<longrightarrow>
            map_sum id time_row_of (with_columns tz r1) =
            map_sum id time_row_of (with_columns tz r2)) \<and>
         (\<forall>c. with_columns tz r = Inr c \<longrightarrow>
            (\<exists>n. py_int (ts r) = Inr n \<and>
                 format_datetime tz n = Inr (start_time c) \<and>
                 datetime c = start_time c div 86400000000 \<and>
                 (\<bar>n\<bar> < 2 ^ 53 \<longrightarrow>
                    start_time c div 1000000 = n div 1000 + tz (n div 1000)) \<and>
                 (\<bar>n\<bar> < 8589934592000 \<longrightarrow>
                    start_time c = n * 1000 + tz (n div 1000) * 1000000)))"
proof (intro conjI impI allI)
  assume "ts r1 = ts r2"
  then show "map_sum id time_row_of (with_columns tz r1) =
             map_sum id time_row_of (with_columns tz r2)"
    by (simp add: with_columns_def time_row_of_def split: sum.splits)
next
  fix c assume wc: "with_columns tz r = Inr c"
  then obtain n t where n: "py_int (ts r) = Inr n" and t: "format_datetime tz n = Inr t"
    and c: "start_time c = t" "datetime c = t div 86400000000"
    by (auto simp: with_columns_def get_timestamp_def get_datetime_def split: sum.splits)
  have s: "t div 1000000 = n div 1000 + tz (n div 1000)" if "\<bar>n\<bar> < 2 ^ 53"
    by (rule format_datetime_seconds [OF t that])
  have x: "t = n * 1000 + tz (n div 1000) * 1000000" if "\<bar>n\<bar> < 8589934592000"
    by (rule format_datetime_exact [OF t that])
  show "\<exists>n. py_int (ts r) = Inr n \<and>
                 format_datetime tz n = Inr (start_time c) \<and>
                 datetime c = start_time c div 86400000000 \<and>
                 (\<bar>n\<bar> < 2 ^ 53 \<longrightarrow>
                    start_time c div 1000000 = n div 1000 + tz (n div 1000)) \<and>
                 (\<bar>n\<bar> < 8589934592000 \<longrightarrow>
                    start_time c = n * 1000 + tz (n div 1000) * 1000000)"
    unfolding c using n t s x by (intro exI [of _ n] conjI impI) simp_all
qed

theorem C5_time_row_depends_only_on_ts_witness:
  "map_sum id time_row_of (with_columns (\<lambda>x. 0) log_tom) =
     Inr (PyInt 1541990258796, 1541990258796000, 17847, 0, 12, 46, 2018, 11, 2) \<and>
   map_sum id time_row_of
     (with_columns (\<lambda>x. 0) (log_tom\<lparr>userId := Some ''99'', song := None\<rparr>)) =
     Inr (PyInt 1541990258796, 1541990258796000, 17847, 0, 12, 46, 2018, 11, 2) \<and>
   start_time cols_tom div 1000000 = 1541990258 \<and>
   start_time cols_tom = 1541990258796000 \<and>
   format_datetime (\<lambda>x. 0) 8589934592001 = Inr 8589934592000999"
proof -
  have row: "map_sum id time_row_of (with_columns (\<lambda>x. 0) log_tom) =
     Inr (PyInt 1541990258796, 1541990258796000, 17847, 0, 12, 46, 2018, 11, 2)"
    unfolding with_columns_log_tom
    by (simp add: time_row_of_def calendar_17847 ym_17847 cols_tom_def)
  have same: "ts log_tom = ts (log_tom\<lparr>userId := Some ''99'', song := None\<rparr>)"
    by simp
  have n: "py_int (ts log_tom) = Inr 1541990258796"
    by (simp add: log_tom_def)
  note inst = C5_time_row_depends_only_on_ts
    [of log_tom "log_tom\<lparr>userId := Some ''99'', song := None\<rparr>" "\<lambda>x. 0" log_tom]
  have a: "map_sum id time_row_of
        (with_columns (\<lambda>x. 0) (log_tom\<lparr>userId := Some ''99'', song := None\<rparr>)) =
      map_sum id time_row_of (with_columns (\<lambda>x. 0) log_tom)"
    by (rule sym) (rule inst [THEN conjunct1, THEN mp, OF same])
  from inst [THEN conjunct2, THEN spec, THEN mp, OF with_columns_log_tom]
  obtain m where m: "py_int (ts log_tom) = Inr m"
    and sec: "\<bar>m\<bar> < 2 ^ 53 \<longrightarrow> start_time cols_tom div 1000000 = m div 1000 + 0"
    and ex: "\<bar>m\<bar> < 8589934592000 \<longrightarrow> start_time cols_tom = m * 1000 + 0 * 1000000"
    by (elim exE conjE)
  from m n have m': "m = 1541990258796"
    by simp
  from sec have s1: "start_time cols_tom div 1000000 = 1541990258"
    unfolding m' by simp
  from ex have s2: "start_time cols_tom = 1541990258796000"
    unfolding m' by simp
  show ?thesis
    by (intro conjI row trans [OF a row] s1 s2 format_datetime_2242)
qed

subsection \<open>C6\<close>

text \<open>
  Claim C6. The songplays join runs on the stream deduplicated by \<open>start_time\<close>: of the
  events that share the \<open>start_time\<close> of any given event exactly one is retained, it is one
  of the input events, and no two retained events share a \<open>start_time\<close>.
\<close>

theorem C6_one_event_per_start_time:
  assumes "e \<in> set df"
  shows "(\<exists>r \<in> set df. start_time r = start_time e \<and>
            filter (\<lambda>x. start_time x = start_time e) (drop_duplicates start_time df) = [r]) \<and>
         distinct (map start_time (drop_duplicates start_time df)) \<and>
         songplays_table song_df df =
           map songplays_row_of (songplays_join song_df (drop_duplicates start_time df))"
  using one_per_key [OF assms, of start_time] distinct_keys_drop_duplicates [of start_time df]
  by (simp add: songplays_table_def)

theorem C6_one_event_per_start_time_witness:
  "cols_tom_again \<in> set [cols_tom, cols_other, cols_tom_again] \<and>
   filter (\<lambda>x. start_time x = start_time cols_tom_again)
     (drop_duplicates start_time [cols_tom, cols_other, cols_tom_again]) = [cols_tom] \<and>
   drop_duplicates start_time [cols_tom, cols_other, cols_tom_again] = [cols_tom, cols_other]"
  using C6_one_event_per_start_time [of cols_tom_again "[cols_tom, cols_other, cols_tom_again]" "[]"]
  by (simp add: cols_tom_def cols_other_def cols_tom_again_def)

subsection \<open>C7\<close>

text \<open>
  Claim C7. Whatever a run of \<^verbatim>\<open>main\<close> adds to the store is one of the five tables, written
  with its partition columns: Songs by year and artist\_id, Time and Songplays by year and
  month, Artists and Users by none. A run that completes has written all five.
\<close>

theorem C7_partition_policy:
  "(\<forall>p w. st p = None \<and> snd (main spark st) p = Some w \<longrightarrow>
      (p, partition_by w) \<in>
        {(''s3a://bucket-name/viraj/output-songs'', [''year'', ''artist_id'']),
         (''s3a://bucket-name/viraj/output-artists'', []),
         (''s3a://bucket-name/viraj/output-users'', []),
         (''s3a://bucket-name/viraj/output-time'', [''year'', ''month'']),
         (''s3a://bucket-name/viraj/output-songplays'', [''year'', ''month''])}) \<and>
   (fst (main spark st) = None \<longrightarrow>
      (\<exists>a b c d e.
         snd (main spark st) ''s3a://bucket-name/viraj/output-songs'' =
           Some \<lparr>partition_by = [''year'', ''artist_id''], rows = Songs a\<rparr> \<and>
         snd (main spark st) ''s3a://bucket-name/viraj/output-artists'' =
           Some \<lparr>partition_by = [], rows = Artists b\<rparr> \<and>
         snd (main spark st) ''s3a://bucket-name/viraj/output-users'' =
           Some \<lparr>partition_by = [], rows = Users c\<rparr> \<and>
         snd (main spark st) ''s3a://bucket-name/viraj/output-time'' =
           Some \<lparr>partition_by = [''year'', ''month''], rows = Time d\<rparr> \<and>
         snd (main spark st) ''s3a://bucket-name/viraj/output-songplays'' =
           Some \<lparr>partition_by = [''year'', ''month''], rows = Songplays e\<rparr>))"
proof (intro conjI impI)
  show "\<forall>p w. st p = None \<and> snd (main spark st) p = Some w \<longrightarrow>
      (p, partition_by w) \<in>
        {(''s3a://bucket-name/viraj/output-songs'', [''year'', ''artist_id'']),
         (''s3a://bucket-name/viraj/output-artists'', []),
         (''s3a://bucket-name/viraj/output-users'', []),
         (''s3a://bucket-name/viraj/output-time'', [''year'', ''month'']),
         (''s3a://bucket-name/viraj/output-songplays'', [''year'', ''month''])}"
    using main_extends [of st spark] unfolding extends_by_def by (rule conjunct2)
next
  assume "fst (main spark st) = None"
  from main_ok [OF this] show "\<exists>a b c d e.
         snd (main spark st) ''s3a://bucket-name/viraj/output-songs'' =
           Some \<lparr>partition_by = [''year'', ''artist_id''], rows = Songs a\<rparr> \<and>
         snd (main spark st) ''s3a://bucket-name/viraj/output-artists'' =
           Some \<lparr>partition_by = [], rows = Artists b\<rparr> \<and>
         snd (main spark st) ''s3a://bucket-name/viraj/output-users'' =
           Some \<lparr>partition_by = [], rows = Users c\<rparr> \<and>
         snd (main spark st) ''s3a://bucket-name/viraj/output-time'' =
           Some \<lparr>partition_by = [''year'', ''month''], rows = Time d\<rparr> \<and>
         snd (main spark st) ''s3a://bucket-name/viraj/output-songplays'' =
           Some \<lparr>partition_by = [''year'', ''month''], rows = Songplays e\<rparr>"
    by (elim exE conjE) (intro exI conjI; assumption)
qed

theorem C7_partition_policy_witness:
  "fst (main (session_of [log_tom, log_home]) Map.empty) = None \<and>
   map_option partition_by
     (snd (main (session_of [log_tom, log_home]) Map.empty) ''s3a://bucket-name/viraj/output-songs'') =
     Some [''year'', ''artist_id''] \<and>
   map_option partition_by
     (snd (main (session_of [log_tom, log_home]) Map.empty) ''s3a://bucket-name/viraj/output-artists'') =
     Some [] \<and>
   map_option partition_by
     (snd (main (session_of [log_tom, log_home]) Map.empty) ''s3a://bucket-name/viraj/output-users'') =
     Some [] \<and>
   map_option partition_by
     (snd (main (session_of [log_tom, log_home]) Map.empty) ''s3a://bucket-name/viraj/output-time'') =
     Some [''year'', ''month''] \<and>
   map_option partition_by
     (snd (main (session_of [log_tom, log_home]) Map.empty) ''s3a://bucket-name/viraj/output-songplays'') =
     Some [''year'', ''month'']"
proof -
  from C7_partition_policy [of Map.empty "session_of [log_tom, log_home]"] main_example_ok
  obtain a b c d e where
    "snd (main (session_of [log_tom, log_home]) Map.empty) ''s3a://bucket-name/viraj/output-songs'' =
       Some \<lparr>partition_by = [''year'', ''artist_id''], rows = Songs a\<rparr>"
    "snd (main (session_of [log_tom, log_home]) Map.empty) ''s3a://bucket-name/viraj/output-artists'' =
       Some \<lparr>partition_by = [], rows = Artists b\<rparr>"
    "snd (main (session_of [log_tom, log_home]) Map.empty) ''s3a://bucket-name/viraj/output-users'' =
       Some \<lparr>partition_by = [], rows = Users c\<rparr>"
    "snd (main (session_of [log_tom, log_home]) Map.empty) ''s3a://bucket-name/viraj/output-time'' =
       Some \<lparr>partition_by = [''year'', ''month''], rows = Time d\<rparr>"
    "snd (main (session_of [log_tom, log_home]) Map.empty) ''s3a://bucket-name/viraj/output-songplays'' =
       Some \<lparr>partition_by = [''year'', ''month''], rows = Songplays e\<rparr>"
    by (elim conjE impE exE) assumption
  with main_example_ok show ?thesis by simp
qed

subsection \<open>C8\<close>

text \<open>
  Claim C8. No write sets a save mode, so each one refuses a path that exists. If the
  path of any of the five tables exists when \<^verbatim>\<open>main\<close> starts, the run ends with an error and
  what that path holds is unchanged; the write to such a path raises Spark's
  AnalysisException and leaves the store as it was.
\<close>

theorem C8_rerun_fails_on_existing_path:
  assumes "p \<in> {''s3a://bucket-name/viraj/output-songs'', ''s3a://bucket-name/viraj/output-artists'',
                 ''s3a://bucket-name/viraj/output-users'', ''s3a://bucket-name/viraj/output-time'',
                 ''s3a://bucket-name/viraj/output-songplays''}"
    and "st p \<noteq> None"
  shows "fst (main spark st) \<noteq> None \<and> snd (main spark st) p = st p \<and>
         write_parquet st p cols tbl = (Some (AnalysisException p), st)"
proof (intro conjI)
  show "fst (main spark st) \<noteq> None"
  proof
    assume "fst (main spark st) = None"
    from main_ok [OF this] assms show False by auto
  qed
  show "snd (main spark st) p = st p"
    using main_extends [of st spark] assms(2) unfolding extends_by_def by blast
  show "write_parquet st p cols tbl = (Some (AnalysisException p), st)"
    using assms(2) by (auto simp: write_parquet_def)
qed

theorem C8_rerun_fails_on_existing_path_witness:
  "fst (main (session_of [log_tom])
          (Map.empty(''s3a://bucket-name/viraj/output-time'' \<mapsto> \<lparr>partition_by = [], rows = Time []\<rparr>))) =
     Some (AnalysisException ''s3a://bucket-name/viraj/output-time'') \<and>
   snd (main (session_of [log_tom])
          (Map.empty(''s3a://bucket-name/viraj/output-time'' \<mapsto> \<lparr>partition_by = [], rows = Time []\<rparr>)))
       ''s3a://bucket-name/viraj/output-time'' = Some \<lparr>partition_by = [], rows = Time []\<rparr> \<and>
   fst (main (session_of [log_tom]) (snd (main (session_of [log_tom]) Map.empty))) \<noteq> None"
proof -
  let ?st = "Map.empty(''s3a://bucket-name/viraj/output-time'' \<mapsto> \<lparr>partition_by = [], rows = Time []\<rparr>)"
  have a: "fst (main (session_of [log_tom]) ?st) =
             Some (AnalysisException ''s3a://bucket-name/viraj/output-time'')"
    by (simp add: main_def process_song_data_def process_log_data_def session_of_def
      and_then_def write_parquet_def on_rows_def log_tom_def)
  have "fst (main (session_of [log_tom]) Map.empty) = None"
    by (simp add: main_def process_song_data_def process_log_data_def session_of_def
      and_then_def write_parquet_def on_rows_def
      with_columns_log_tom [simplified log_tom_def] log_tom_def)
  from main_ok [OF this] have
    b: "snd (main (session_of [log_tom]) Map.empty) ''s3a://bucket-name/viraj/output-songs'' \<noteq> None"
    by (elim exE conjE) simp
  from C8_rerun_fails_on_existing_path
    [of "''s3a://bucket-name/viraj/output-time''" ?st "session_of [log_tom]"]
    C8_rerun_fails_on_existing_path
    [of "''s3a://bucket-name/viraj/output-songs''" "snd (main (session_of [log_tom]) Map.empty)"
        "session_of [log_tom]", OF _ b]
    a
  show ?thesis by simp
qed

subsection \<open>C9\<close>

text \<open>
  Claim C9. The join reads the song records with their duplicates. If a retained event
  matches a song record that occurs \<open>k\<close> times in the song source, the Songplays table has
  at least \<open>k\<close> rows for that event (the rows with its \<open>start_time\<close>), and exactly \<open>k\<close>
  when those copies are the only records that match it.
\<close>

theorem C9_one_row_per_duplicate_song_record:
  assumes l: "l \<in> set (drop_duplicates start_time df)"
    and pg: "page l = Some ''NextSong''"
    and m: "sql_eq (title s) (song l)" "sql_eq (artist_name s) (artist l)"
    and k: "count_list song_df s = k"
  shows "k \<le> length (filter (\<lambda>row. fst row = start_time l) (songplays_table song_df df)) \<and>
         ((\<forall>s' \<in> set song_df.
              sql_eq (title s') (song l) \<and> sql_eq (artist_name s') (artist l) \<longrightarrow> s' = s) \<longrightarrow>
          length (filter (\<lambda>row. fst row = start_time l) (songplays_table song_df df)) = k)"
proof -
  let ?m = "\<lambda>s'. sql_eq (title s') (song l) \<and> sql_eq (artist_name s') (artist l)"
  have rows: "length (filter (\<lambda>row. fst row = start_time l) (songplays_table song_df df)) =
              length (filter ?m song_df)"
    by (rule songplays_rows_of_event [OF l pg])
  have cnt: "k = length (filter (\<lambda>s'. s' = s) song_df)"
    unfolding k [symmetric] by (induction song_df) auto
  have "filter (\<lambda>s'. s' = s) song_df = filter (\<lambda>s'. s' = s) (filter ?m song_df)"
    unfolding filter_filter by (rule filter_cong) (auto simp: m)
  then have "k \<le> length (filter ?m song_df)"
    unfolding cnt by (metis length_filter_le)
  moreover have "length (filter ?m song_df) = k"
    if "\<forall>s' \<in> set song_df. ?m s' \<longrightarrow> s' = s"
  proof -
    have "filter ?m song_df = filter (\<lambda>s'. s' = s) song_df"
      by (rule filter_cong) (use that m in auto)
    then show ?thesis unfolding cnt by simp
  qed
  ultimately show ?thesis unfolding rows by blast
qed

theorem C9_one_row_per_duplicate_song_record_witness:
  "count_list [song_tom, song_nokey, song_tom] song_tom = 2 \<and>
   songplays_table [song_tom, song_tom] [cols_tom, cols_other] =
     [(1541990258796000, 2018, 11, Some ''10'', Some ''free'', Some ''S1'', Some ''A1'', Some 5,
       Some ''LA'', Some ''UA''),
      (1541990258796000, 2018, 11, Some ''10'', Some ''free'', Some ''S1'', Some ''A1'', Some 5,
       Some ''LA'', Some ''UA'')] \<and>
   length (filter (\<lambda>row. fst row = 1541990258796000)
     (songplays_table [song_tom, song_nokey, song_tom] [cols_tom, cols_other])) = 3"
  using C9_one_row_per_duplicate_song_record
    [of cols_tom "[cols_tom, cols_other]" song_tom "[song_tom, song_tom]" 2]
    C9_one_row_per_duplicate_song_record
    [of cols_tom "[cols_tom, cols_other]" song_tom "[song_tom, song_nokey, song_tom]" 2]
  by (simp add: songplays_table_def songplays_join_def inner_join_def sql_eq_def
      songplays_row_of_def song_tom_def song_nokey_def cols_tom_def cols_other_def ym_17847)

subsection \<open>C10\<close>

text \<open>
  Claim C10. If a log record with page "NextSong" has a \<open>ts\<close> that is null, a NaN, an
  infinity, a list or Row, or a string whose ASCII form is not an integer literal (by
  \<open>py_int_raises_iff\<close> these are all the values on which \<^verbatim>\<open>int(x)\<close> raises), then
  \<^verbatim>\<open>int(x)\<close> raises in both lambdas, \<^verbatim>\<open>process_log_data\<close> ends with an error and writes
  neither the Time nor the Songplays table; when the Users and Time paths are free, the
  error is a Python exception. The witness runs one record of each kind: null and a list
  give a TypeError, the strings \<^verbatim>\<open>abc\<close> and 0x1C followed by \<^verbatim>\<open>12\<close> and NaN a ValueError,
  an infinity an OverflowError.
\<close>

theorem C10_bad_ts_aborts_log_processing:
  assumes rd: "read_log_json spark (input_data @ ''log-data/'') = Inr df"
    and r: "r \<in> set df" "page r = Some ''NextSong''"
    and bad: "ts r = PyNone \<or> ts r = PyNaN \<or> ts r = PyInf \<or> ts r = PyOther \<or>
              (\<exists>s. ts r = PyStr s \<and> \<not> int_literal (to_ascii s))"
  shows "(\<exists>e. py_int (ts r) = Inl e \<and> get_timestamp (utcoffset spark) (ts r) = Inl e \<and>
              get_datetime (utcoffset spark) (ts r) = Inl e) \<and>
         fst (process_log_data spark input_data output_data st) \<noteq> None \<and>
         snd (process_log_data spark input_data output_data st) (output_data @ ''time'') =
           st (output_data @ ''time'') \<and>
         snd (process_log_data spark input_data output_data st) (output_data @ ''songplays'') =
           st (output_data @ ''songplays'') \<and>
         (st (output_data @ ''users'') = None \<and> st (output_data @ ''time'') = None \<longrightarrow>
            (\<exists>e'. fst (process_log_data spark input_data output_data st) =
                    Some (PythonException e')))"
proof -
  from bad obtain e where e: "py_int (ts r) = Inl e"
    using py_int_raises_iff [of "ts r"] by blast
  then have g: "get_timestamp (utcoffset spark) (ts r) = Inl e"
      "get_datetime (utcoffset spark) (ts r) = Inl e"
    by (simp_all add: get_timestamp_def get_datetime_def)
  from r have f1: "r \<in> set (filter (\<lambda>r. page r = Some ''NextSong'') df)"
    by simp
  from g have f2: "with_columns (utcoffset spark) r = Inl e"
    by (simp add: with_columns_def)
  from traverse_Inl [of r "filter (\<lambda>r. page r = Some ''NextSong'') df"
      "with_columns (utcoffset spark)" e, OF f1 f2] obtain e' where
    t: "traverse (with_columns (utcoffset spark)) (filter (\<lambda>r. page r = Some ''NextSong'') df) = Inl e'"
    ..
  have run: "fst (process_log_data spark input_data output_data st) \<noteq> None \<and>
         snd (process_log_data spark input_data output_data st) (output_data @ ''time'') =
           st (output_data @ ''time'') \<and>
         snd (process_log_data spark input_data output_data st) (output_data @ ''songplays'') =
           st (output_data @ ''songplays'') \<and>
         (st (output_data @ ''users'') = None \<and> st (output_data @ ''time'') = None \<longrightarrow>
            (\<exists>e'. fst (process_log_data spark input_data output_data st) =
                    Some (PythonException e')))"
    by (cases "st (output_data @ ''users'')"; cases "st (output_data @ ''time'')")
      (simp_all add: process_log_data_def rd t and_then_def write_parquet_def on_rows_def)
  from e g have "\<exists>e. py_int (ts r) = Inl e \<and> get_timestamp (utcoffset spark) (ts r) = Inl e \<and>
              get_datetime (utcoffset spark) (ts r) = Inl e"
    by (intro exI [of _ e] conjI)
  with run show ?thesis by (intro conjI) simp_all
qed

theorem C10_bad_ts_aborts_log_processing_witness:
  "fst (process_log_data (session_of [log_tom, log_with_ts PyNone])
          ''s3a://bucket-name/viraj/'' ''s3a://bucket-name/viraj/output-'' Map.empty) =
     Some (PythonException TypeError) \<and>
   fst (process_log_data (session_of [log_tom, log_with_ts (PyStr ''abc'')])
          ''s3a://bucket-name/viraj/'' ''s3a://bucket-name/viraj/output-'' Map.empty) =
     Some (PythonException ValueError) \<and>
   fst (process_log_data (session_of [log_tom, log_with_ts (PyStr [CHR 0x1C, CHR ''1'', CHR ''2''])])
          ''s3a://bucket-name/viraj/'' ''s3a://bucket-name/viraj/output-'' Map.empty) =
     Some (PythonException ValueError) \<and>
   fst (process_log_data (session_of [log_tom, log_with_ts PyNaN])
          ''s3a://bucket-name/viraj/'' ''s3a://bucket-name/viraj/output-'' Map.empty) =
     Some (PythonException ValueError) \<and>
   fst (process_log_data (session_of [log_tom, log_with_ts PyInf])
          ''s3a://bucket-name/viraj/'' ''s3a://bucket-name/viraj/output-'' Map.empty) =
     Some (PythonException OverflowError) \<and>
   fst (process_log_data (session_of [log_tom, log_with_ts PyOther])
          ''s3a://bucket-name/viraj/'' ''s3a://bucket-name/viraj/output-'' Map.empty) =
     Some (PythonException TypeError) \<and>
   snd (process_log_data (session_of [log_tom, log_with_ts PyNone])
          ''s3a://bucket-name/viraj/'' ''s3a://bucket-name/viraj/output-'' Map.empty)
       ''s3a://bucket-name/viraj/output-time'' = None \<and>
   snd (process_log_data (session_of [log_tom, log_with_ts PyNone])
          ''s3a://bucket-name/viraj/'' ''s3a://bucket-name/viraj/output-'' Map.empty)
       ''s3a://bucket-name/viraj/output-songplays'' = None \<and>
   snd (process_log_data (session_of [log_tom, log_with_ts (PyStr ''abc'')])
          ''s3a://bucket-name/viraj/'' ''s3a://bucket-name/viraj/output-'' Map.empty)
       ''s3a://bucket-name/viraj/output-time'' = None \<and>
   snd (process_log_data (session_of [log_tom, log_with_ts (PyStr ''abc'')])
          ''s3a://bucket-name/viraj/'' ''s3a://bucket-name/viraj/output-'' Map.empty)
       ''s3a://bucket-name/viraj/output-songplays'' = None \<and>
   snd (process_log_data (session_of [log_tom, log_with_ts (PyStr [CHR 0x1C, CHR ''1'', CHR ''2''])])
          ''s3a://bucket-name/viraj/'' ''s3a://bucket-name/viraj/output-'' Map.empty)
       ''s3a://bucket-name/viraj/output-time'' = None \<and>
   snd (process_log_data (session_of [log_tom, log_with_ts (PyStr [CHR 0x1C, CHR ''1'', CHR ''2''])])
          ''s3a://bucket-name/viraj/'' ''s3a://bucket-name/viraj/output-'' Map.empty)
       ''s3a://bucket-name/viraj/output-songplays'' = None \<and>
   snd (process_log_data (session_of [log_tom, log_with_ts PyNaN])
          ''s3a://bucket-name/viraj/'' ''s3a://bucket-name/viraj/output-'' Map.empty)
       ''s3a://bucket-name/viraj/output-time'' = None \<and>
   snd (process_log_data (session_of [log_tom, log_with_ts PyNaN])
          ''s3a://bucket-name/viraj/'' ''s3a://bucket-name/viraj/output-'' Map.empty)
       ''s3a://bucket-name/viraj/output-songplays'' = None \<and>
   snd (process_log_data (session_of [log_tom, log_with_ts PyInf])
          ''s3a://bucket-name/viraj/'' ''s3a://bucket-name/viraj/output-'' Map.empty)
       ''s3a://bucket-name/viraj/output-time'' = None \<and>
   snd (process_log_data (session_of [log_tom, log_with_ts PyInf])
          ''s3a://bucket-name/viraj/'' ''s3a://bucket-name/viraj/output-'' Map.empty)
       ''s3a://bucket-name/viraj/output-songplays'' = None \<and>
   snd (process_log_data (session_of [log_tom, log_with_ts PyOther])
          ''s3a://bucket-name/viraj/'' ''s3a://bucket-name/viraj/output-'' Map.empty)
       ''s3a://bucket-name/viraj/output-time'' = None \<and>
   snd (process_log_data (session_of [log_tom, log_with_ts PyOther])
          ''s3a://bucket-name/viraj/'' ''s3a://bucket-name/viraj/output-'' Map.empty)
       ''s3a://bucket-name/viraj/output-songplays'' = None"
proof -
  have rd: "read_log_json (session_of logs) (''s3a://bucket-name/viraj/'' @ ''log-data/'') = Inr logs"
    for logs
    by (simp add: session_of_def)
  have pg: "page (log_with_ts x) = Some ''NextSong''" and tsx: "ts (log_with_ts x) = x" for x
    by (simp_all add: log_with_ts_def)
  have mem: "log_with_ts x \<in> set [log_tom, log_with_ts x]" for x
    by simp
  have bad: "ts (log_with_ts x) = PyNone \<or> ts (log_with_ts x) = PyNaN \<or>
      ts (log_with_ts x) = PyInf \<or> ts (log_with_ts x) = PyOther \<or>
      (\<exists>s. ts (log_with_ts x) = PyStr s \<and> \<not> int_literal (to_ascii s))"
    if "x = PyNone \<or> x = PyNaN \<or> x = PyInf \<or> x = PyOther \<or>
        (\<exists>s. x = PyStr s \<and> \<not> int_literal (to_ascii s))" for x
    unfolding tsx by (rule that)
  have unchanged:
    "snd (process_log_data (session_of [log_tom, log_with_ts x])
          ''s3a://bucket-name/viraj/'' ''s3a://bucket-name/viraj/output-'' Map.empty)
       ''s3a://bucket-name/viraj/output-time'' = None \<and>
     snd (process_log_data (session_of [log_tom, log_with_ts x])
          ''s3a://bucket-name/viraj/'' ''s3a://bucket-name/viraj/output-'' Map.empty)
       ''s3a://bucket-name/viraj/output-songplays'' = None"
    if "x = PyNone \<or> x = PyNaN \<or> x = PyInf \<or> x = PyOther \<or>
        (\<exists>s. x = PyStr s \<and> \<not> int_literal (to_ascii s))" for x
    using C10_bad_ts_aborts_log_processing [OF rd mem pg bad [OF that],
        where output_data = "''s3a://bucket-name/viraj/output-''" and st = Map.empty]
    by simp
  have u1: "PyNone = PyNone \<or> PyNone = PyNaN \<or> PyNone = PyInf \<or> PyNone = PyOther \<or>
        (\<exists>s. PyNone = PyStr s \<and> \<not> int_literal (to_ascii s))"
    by simp
  have u2: "PyStr ''abc'' = PyNone \<or> PyStr ''abc'' = PyNaN \<or> PyStr ''abc'' = PyInf \<or>
        PyStr ''abc'' = PyOther \<or> (\<exists>s. PyStr ''abc'' = PyStr s \<and> \<not> int_literal (to_ascii s))"
    using not_int_literal_examples(1) by simp
  have u3: "PyStr [CHR 0x1C, CHR ''1'', CHR ''2''] = PyNone \<or>
        PyStr [CHR 0x1C, CHR ''1'', CHR ''2''] = PyNaN \<or>
        PyStr [CHR 0x1C, CHR ''1'', CHR ''2''] = PyInf \<or>
        PyStr [CHR 0x1C, CHR ''1'', CHR ''2''] = PyOther \<or>
        (\<exists>s. PyStr [CHR 0x1C, CHR ''1'', CHR ''2''] = PyStr s \<and> \<not> int_literal (to_ascii s))"
    using not_int_literal_examples(2) by simp
  have u4: "PyNaN = PyNone \<or> PyNaN = PyNaN \<or> PyNaN = PyInf \<or> PyNaN = PyOther \<or>
        (\<exists>s. PyNaN = PyStr s \<and> \<not> int_literal (to_ascii s))"
    by simp
  have u5: "PyInf = PyNone \<or> PyInf = PyNaN \<or> PyInf = PyInf \<or> PyInf = PyOther \<or>
        (\<exists>s. PyInf = PyStr s \<and> \<not> int_literal (to_ascii s))"
    by simp
  have u6: "PyOther = PyNone \<or> PyOther = PyNaN \<or> PyOther = PyInf \<or> PyOther = PyOther \<or>
        (\<exists>s. PyOther = PyStr s \<and> \<not> int_literal (to_ascii s))"
    by simp
  note runs = with_columns_bad_ts [THEN process_log_data_bad_ts]
  show ?thesis
    by (intro conjI runs unchanged [OF u1, THEN conjunct1] unchanged [OF u1, THEN conjunct2]
        unchanged [OF u2, THEN conjunct1] unchanged [OF u2, THEN conjunct2]
        unchanged [OF u3, THEN conjunct1] unchanged [OF u3, THEN conjunct2]
        unchanged [OF u4, THEN conjunct1] unchanged [OF u4, THEN conjunct2]
        unchanged [OF u5, THEN conjunct1] unchanged [OF u5, THEN conjunct2]
        unchanged [OF u6, THEN conjunct1] unchanged [OF u6, THEN conjunct2])
qed

end
